theory Spec2Isabelle
  imports Main "HOL-Library.Word" "HOL-Library.Sublist"
begin

unbundle bit_operations_syntax

section \<open>Packed tokens (cnp.c, lines 44-75 and 121-156)\<close>

text \<open>
  A \<open>Token\<close> is a \<open>uint64_t\<close>: the kind in the low 8 bits, the payload (one
  character of a name, or the value of a constant) in the 56 bits above.
\<close>

type_synonym Token = "64 word"

datatype TokenKind =
  TK_INVALID | TK_EQ | TK_IDENT | TK_CONST | TK_PLUS | TK_TIMES | TK_LPAREN | TK_RPAREN | TK_EOF

text \<open>The value the C enumeration gives each kind.\<close>

fun TokenKind_val :: "TokenKind \<Rightarrow> Token" where
  "TokenKind_val TK_INVALID = 0"
| "TokenKind_val TK_EQ = 1"
| "TokenKind_val TK_IDENT = 2"
| "TokenKind_val TK_CONST = 3"
| "TokenKind_val TK_PLUS = 4"
| "TokenKind_val TK_TIMES = 5"
| "TokenKind_val TK_LPAREN = 6"
| "TokenKind_val TK_RPAREN = 7"
| "TokenKind_val TK_EOF = 8"

text \<open>
  \<open>name[0]\<close> of a C string: its first character, or the terminating NUL of the
  empty string.
\<close>

fun first_char :: "string \<Rightarrow> char" where
  "first_char [] = CHR 0x00"
| "first_char (c # cs) = c"

text \<open>
  \<open>(uintptr_t)name[0]\<close>: \<open>char\<close> is signed on the target (clang, x86-64
  Windows), so the conversion to the 64-bit unsigned type extends the sign.
\<close>

definition char_to_uintptr :: "char \<Rightarrow> 64 word" where
  "char_to_uintptr c = scast (of_char c :: 8 word)"

text \<open>\<open>#define VAR(name) (Token){(((uintptr_t)name[0]) << 8) | TK_IDENT}\<close>\<close>

definition VAR :: "string \<Rightarrow> Token" where
  "VAR name = push_bit 8 (char_to_uintptr (first_char name)) OR TokenKind_val TK_IDENT"

text \<open>\<open>#define TOK(t) ((Token){TK_##t})\<close>\<close>

definition TOK :: "TokenKind \<Rightarrow> Token" where
  "TOK t = TokenKind_val t"

text \<open>
  \<open>#define CONST(v) ((Token){v << 8 | TK_CONST})\<close>, named \<open>CONST_tok\<close> here
  (\<open>CONST\<close> is reserved in Isabelle's term syntax). The macro is untyped; the
  argument is taken at the width of the token it initialises.
\<close>

definition CONST_tok :: "64 word \<Rightarrow> Token" where
  "CONST_tok v = push_bit 8 v OR TokenKind_val TK_CONST"

text \<open>The decoding of the printing loop: \<open>tokens[i] & 0xff\<close> and \<open>tokens[i] >> 8\<close>.\<close>

definition token_kind :: "Token \<Rightarrow> 64 word" where
  "token_kind t = t AND 0xff"

definition token_payload :: "Token \<Rightarrow> 64 word" where
  "token_payload t = drop_bit 8 t"

text \<open>The array \<open>tokens\<close> of \<open>main\<close>.\<close>

definition tokens :: "Token list" where
  "tokens =
    [ VAR ''a'', TOK TK_EQ, TOK TK_LPAREN, VAR ''b'', TOK TK_PLUS, VAR ''c'',
      TOK TK_PLUS, VAR ''f'', TOK TK_TIMES, VAR ''g'', TOK TK_RPAREN, TOK TK_TIMES,
      TOK TK_LPAREN, VAR ''d'', TOK TK_PLUS, CONST_tok 3, TOK TK_RPAREN, TOK TK_EOF ]"

section \<open>Packed syntax-tree nodes (cnp.c, lines 77-112 and 178-206)\<close>

text \<open>
  An \<open>Ast\<close> node is a \<open>uint32_t\<close>. A leaf holds its kind in bits 0-6, the lvalue
  flag in bit 7 and a token index in bits 8-31; a binary node holds its kind in the low
  bits and the backward displacement to its left operand in bits 20-31.
\<close>

type_synonym Ast = "32 word"

datatype AstKind = AST_INVALID | AST_ASSIGN | AST_ADD | AST_MUL | AST_NAME | AST_CONST

fun AstKind_val :: "AstKind \<Rightarrow> 32 word" where
  "AstKind_val AST_INVALID = 0"
| "AstKind_val AST_ASSIGN = 1"
| "AstKind_val AST_ADD = 2"
| "AstKind_val AST_MUL = 3"
| "AstKind_val AST_NAME = 4"
| "AstKind_val AST_CONST = 5"

text \<open>
  \<open>#define UNARYOP(k, val) ((((uint32_t)(val & 0xffffff)) << 8) | (((uint32_t)(AST_##k))))\<close>
\<close>

definition UNARYOP :: "AstKind \<Rightarrow> 32 word \<Rightarrow> Ast" where
  "UNARYOP k val = push_bit 8 (val AND 0xffffff) OR AstKind_val k"

text \<open>
  \<open>#define UNARYOP_LVAL(k, val)
    ((((uint32_t)(val & 0xffffff)) << 8) | (0x80) | (((uint32_t)(AST_##k))))\<close>
\<close>

definition UNARYOP_LVAL :: "AstKind \<Rightarrow> 32 word \<Rightarrow> Ast" where
  "UNARYOP_LVAL k val = push_bit 8 (val AND 0xffffff) OR 0x80 OR AstKind_val k"

text \<open>
  \<open>#define BINOP(k, lhs_displ)
    ((((uint32_t)(lhs_displ & 0xfff)) << 20) | (((uint32_t)(AST_##k))))\<close>
\<close>

definition BINOP :: "AstKind \<Rightarrow> 32 word \<Rightarrow> Ast" where
  "BINOP k lhs_displ = push_bit 20 (lhs_displ AND 0xfff) OR AstKind_val k"

text \<open>
  The decoding of the printing loop: \<open>nodes[i] & 0x7f\<close>, \<open>(bool)(nodes[i] & 0x80)\<close>
  and \<open>(int)nodes[i] >> 8\<close>. The cast binds tighter than the shift: the node is read
  as a signed \<open>int\<close> first and then shifted arithmetically, so bit 31 is copied into
  the upper bits of the index.
\<close>

definition ast_kind :: "Ast \<Rightarrow> 32 word" where
  "ast_kind n = n AND 0x7f"

definition ast_lval :: "Ast \<Rightarrow> bool" where
  "ast_lval n = (n AND 0x80 \<noteq> 0)"

definition ast_token_index :: "Ast \<Rightarrow> int" where
  "ast_token_index n = sint (signed_drop_bit 8 n)"

text \<open>
  \<open>tokens[(int)nodes[i] >> 8]\<close>: the token a leaf names. C does not check the index;
  outside the array the read has no defined result, which is \<open>None\<close> here.
\<close>

definition ast_token :: "Token list \<Rightarrow> Ast \<Rightarrow> Token option" where
  "ast_token ts n =
     (let i = ast_token_index n
      in if 0 \<le> i \<and> i < int (length ts) then Some (ts ! nat i) else None)"

text \<open>The array \<open>nodes\<close> of \<open>main\<close>, in postorder.\<close>

definition nodes :: "Ast list" where
  "nodes =
    [ UNARYOP_LVAL AST_NAME 0, UNARYOP AST_NAME 3, UNARYOP AST_NAME 5, BINOP AST_ADD 2,
      UNARYOP AST_NAME 7, UNARYOP AST_NAME 9, BINOP AST_MUL 2, BINOP AST_ADD 4,
      UNARYOP AST_NAME 13, UNARYOP AST_CONST 15, BINOP AST_ADD 2, BINOP AST_MUL 4,
      BINOP AST_ASSIGN 12 ]"

section \<open>Bit-level facts about the encodings\<close>

lemma AstKind_val_bit: "bit (AstKind_val k) n \<Longrightarrow> n < 7"
proof -
  have "AstKind_val k = take_bit 7 (AstKind_val k)" by (cases k) simp_all
  then show "bit (AstKind_val k) n \<Longrightarrow> n < 7" by (metis bit_take_bit_iff)
qed

lemma TokenKind_val_bit: "bit (TokenKind_val k) n \<Longrightarrow> n < 8"
proof -
  have "TokenKind_val k = take_bit 8 (TokenKind_val k)" by (cases k) simp_all
  then show "bit (TokenKind_val k) n \<Longrightarrow> n < 8" by (metis bit_take_bit_iff)
qed

lemma mask24: "(0xffffff :: 32 word) = mask 24"
  by (simp add: mask_eq_exp_minus_1)

lemma mask12: "(0xfff :: 32 word) = mask 12"
  by (simp add: mask_eq_exp_minus_1)

lemma mask7: "(0x7f :: 32 word) = mask 7"
  by (simp add: mask_eq_exp_minus_1)

lemma mask8_64: "(0xff :: 64 word) = mask 8"
  by (simp add: mask_eq_exp_minus_1)

lemma bit_0x80_iff: "bit (0x80 :: int) n \<longleftrightarrow> n = 7"
proof -
  have e: "(0x80 :: int) = 2 ^ 7" by simp
  show ?thesis unfolding e by (simp only: bit_exp_iff) auto
qed

lemma bit_0x80D: "bit (0x80 :: int) n \<Longrightarrow> n = 7"
  using bit_0x80_iff by auto

lemma bit_0x80_7: "bit (0x80 :: int) 7"
  using bit_0x80_iff by auto

lemma ast_kind_UNARYOP: "ast_kind (UNARYOP k v) = AstKind_val k"
  unfolding ast_kind_def UNARYOP_def mask7 mask24
  by (rule bit_word_eqI) (auto simp: bit_simps dest: AstKind_val_bit)

lemma ast_kind_UNARYOP_LVAL: "ast_kind (UNARYOP_LVAL k v) = AstKind_val k"
  unfolding ast_kind_def UNARYOP_LVAL_def mask7 mask24
  by (rule bit_word_eqI) (auto simp: bit_simps dest: AstKind_val_bit bit_0x80D)

lemma ast_kind_BINOP: "ast_kind (BINOP k d) = AstKind_val k"
  unfolding ast_kind_def BINOP_def mask7 mask12
  by (rule bit_word_eqI) (auto simp: bit_simps dest: AstKind_val_bit)

lemma ast_lval_UNARYOP: "\<not> ast_lval (UNARYOP k v)"
  unfolding ast_lval_def UNARYOP_def mask24
  by (simp add: bit_eq_iff) (auto simp: bit_simps dest: AstKind_val_bit bit_0x80D)

lemma ast_lval_UNARYOP_LVAL: "ast_lval (UNARYOP_LVAL k v)"
  unfolding ast_lval_def UNARYOP_LVAL_def mask24
  apply (simp add: bit_eq_iff)
  apply (rule exI [of _ 7])
  apply (auto simp: bit_simps bit_0x80_7 dest: AstKind_val_bit)
  done

lemma signed_drop_bit_UNARYOP_LVAL:
  "signed_drop_bit 8 (UNARYOP_LVAL k v) = signed_drop_bit 8 (UNARYOP k v)"
  unfolding UNARYOP_LVAL_def UNARYOP_def mask24
  by (rule bit_word_eqI) (auto simp: bit_simps dest: AstKind_val_bit bit_0x80D)



lemma drop_bit_BINOP: "drop_bit 20 (BINOP k d) = d AND 0xfff"
  unfolding BINOP_def mask12
  by (rule bit_word_eqI) (auto simp: bit_simps dest: AstKind_val_bit)

lemma sint_small: "(v :: 32 word) < 0x800000 \<Longrightarrow> sint v = uint v"
proof -
  assume a: "v < 0x800000"
  then have hi: "uint v < 2 ^ 31" by (simp add: word_less_def)
  have lo: "- (2 ^ 31) \<le> uint v" by (rule order_trans [of _ 0]) simp_all
  have "signed_take_bit 31 (uint v) = uint v"
    using lo hi by (rule signed_take_bit_int_eq_self)
  then show ?thesis by (simp add: sint_uint)
qed

lemma take_bit_small: "(v :: 32 word) < 0x800000 \<Longrightarrow> take_bit 23 v = v"
proof -
  assume a: "v < 0x800000"
  have e: "(0x800000 :: 32 word) = 2 ^ 23" by simp
  from a have "v < 2 ^ 23" by (simp only: e)
  then have "v AND mask 23 = v" by (rule less_mask_eq)
  then show "take_bit 23 v = v" by (simp only: take_bit_eq_mask)
qed

lemma signed_drop_bit_UNARYOP_take:
  "signed_drop_bit 8 (UNARYOP k (take_bit 23 v)) = take_bit 23 v"
  unfolding UNARYOP_def mask24
  by (rule bit_word_eqI) (auto simp: bit_simps dest: AstKind_val_bit)

text \<open>
  Below \<open>2^23\<close> the index read back by the printing loop is the index that was
  encoded.
\<close>

lemma ast_token_index_UNARYOP:
  assumes "v < 0x800000"
  shows "ast_token_index (UNARYOP k v) = uint v"
proof -
  have "signed_drop_bit 8 (UNARYOP k v) = v"
    using signed_drop_bit_UNARYOP_take [of k v] take_bit_small [OF assms] by simp
  then show ?thesis using sint_small [OF assms] by (simp add: ast_token_index_def)
qed

lemma token_low: "(push_bit 8 x OR TokenKind_val k) AND 0xff = TokenKind_val k"
  unfolding mask8_64
  by (rule bit_word_eqI) (auto simp: bit_simps dest: TokenKind_val_bit)

lemma token_high: "drop_bit 8 (push_bit 8 x OR TokenKind_val k) = take_bit 56 (x :: 64 word)"
  by (rule bit_word_eqI) (auto simp: bit_simps dest: TokenKind_val_bit)

lemma token_kind_TOK: "token_kind (TOK t) = TokenKind_val t"
  using token_low [of 0 t] by (simp add: token_kind_def TOK_def)

lemma token_payload_TOK: "token_payload (TOK t) = 0"
  using token_high [of 0 t] by (simp add: token_payload_def TOK_def)

lemma token_kind_VAR: "token_kind (VAR name) = TokenKind_val TK_IDENT"
  unfolding token_kind_def VAR_def by (rule token_low)

lemma token_kind_CONST_tok: "token_kind (CONST_tok v) = TokenKind_val TK_CONST"
  unfolding token_kind_def CONST_tok_def by (rule token_low)


lemma token_payload_VAR:
  "token_payload (VAR name) = take_bit 56 (char_to_uintptr (first_char name))"
  unfolding token_payload_def VAR_def by (rule token_high)

lemma CONST_tok_take_bit: "CONST_tok v = CONST_tok (take_bit 56 v)"
  unfolding CONST_tok_def
  by (rule bit_word_eqI) (auto simp: bit_simps)

lemma UNARYOP_LVAL_eq: "UNARYOP_LVAL k v = UNARYOP k v OR 0x80"
  by (simp add: UNARYOP_LVAL_def UNARYOP_def ac_simps)

section \<open>The encodings: the claims\<close>

text \<open>
  C9. The kind (mask \<open>0x7f\<close>) and the lvalue flag (bit \<open>0x80\<close>) occupy disjoint bits
  of the low byte: for every kind \<open>k\<close> and every index \<open>v\<close>, \<open>UNARYOP_LVAL(k, v)\<close>
  is \<open>UNARYOP(k, v)\<close> with bit 7 set, and the printing loop reads the same kind and
  the same index from both; only the lvalue flag differs, true for the first and false
  for the second.
\<close>

theorem UNARYOP_LVAL_same_kind_and_index:
  "UNARYOP_LVAL k v = UNARYOP k v OR 0x80
   \<and> AstKind_val k AND 0x80 = 0
   \<and> ast_kind (UNARYOP_LVAL k v) = AstKind_val k
   \<and> ast_kind (UNARYOP k v) = AstKind_val k
   \<and> ast_token_index (UNARYOP_LVAL k v) = ast_token_index (UNARYOP k v)
   \<and> ast_lval (UNARYOP_LVAL k v)
   \<and> \<not> ast_lval (UNARYOP k v)"
proof -
  have "AstKind_val k AND 0x80 = 0" by (cases k) simp_all
  moreover have "ast_token_index (UNARYOP_LVAL k v) = ast_token_index (UNARYOP k v)"
    by (simp add: ast_token_index_def signed_drop_bit_UNARYOP_LVAL)
  ultimately show ?thesis
    by (simp add: UNARYOP_LVAL_eq [symmetric] ast_kind_UNARYOP_LVAL ast_kind_UNARYOP
        ast_lval_UNARYOP_LVAL ast_lval_UNARYOP)
qed

text \<open>
  C2 (the code departs from the claim). A leaf stores a 24-bit token index, and
  \<open>UNARYOP\<close> accepts every such index, but the printing loop reads it back with
  \<open>(int)nodes[i] >> 8\<close>: the cast is applied before the shift, so an index with bit 23
  set comes back negative. For the index \<open>0x800000\<close> the loop computes \<open>-8388608\<close> and
  indexes \<open>tokens\<close> out of bounds. The token decoding two loops earlier writes
  \<open>(int)(tokens[i] >> 8)\<close>, with the shift inside the cast.
\<close>

theorem ast_token_index_sign_extends:
  "ast_token_index (UNARYOP AST_NAME 0x800000) = - 8388608
   \<and> ast_token tokens (UNARYOP AST_NAME 0x800000) = None"
  by (simp add: ast_token_def ast_token_index_def UNARYOP_def)



section \<open>The virtual operand stack and the stitched snippets (cnp.c, lines 208-326)\<close>

text \<open>
  The printing loop tells a leaf (\<open>AST_NAME\<close>, \<open>AST_CONST\<close>) from the other kinds;
  \<open>AST_ASSIGN\<close>, \<open>AST_ADD\<close> and \<open>AST_MUL\<close> are the kinds built with \<open>BINOP\<close>.
\<close>

definition ast_is_leaf :: "Ast \<Rightarrow> bool" where
  "ast_is_leaf n = (ast_kind n = AstKind_val AST_NAME \<or> ast_kind n = AstKind_val AST_CONST)"

definition ast_is_binary :: "Ast \<Rightarrow> bool" where
  "ast_is_binary n =
     (ast_kind n = AstKind_val AST_ASSIGN \<or> ast_kind n = AstKind_val AST_ADD
      \<or> ast_kind n = AstKind_val AST_MUL)"

text \<open>
  The displacement field of a binary node: bits 20-31, where \<open>BINOP\<close> puts it. The
  program never reads it back.
\<close>

definition ast_lhs_displ :: "Ast \<Rightarrow> nat" where
  "ast_lhs_displ n = unat (drop_bit 20 n)"

text \<open>
  What the encoding says about the operands of node \<open>i\<close>: the left operand is
  \<open>lhs_displ\<close> nodes back, the right operand is the node just before (lines 173-176).
\<close>

definition stored_operands :: "Ast list \<Rightarrow> nat \<Rightarrow> (nat \<times> nat) option" where
  "stored_operands ns i =
     (if ast_is_binary (ns ! i) then Some (i - ast_lhs_displ (ns ! i), i - 1) else None)"

text \<open>
  Specification (spec section 4.2, and the \<open>vstack now [...]\<close> comments of lines
  289-326): the virtual-stack simulation of a postorder walk. The stack holds, for each
  value not yet consumed, the index of the node that produced it. A leaf pushes its
  value; a binary node consumes the two topmost values, the right operand on top, and
  pushes its result, except that an assignment leaves nothing. A visit records the
  number of values below the node's result and the operands consumed. A binary node
  that finds fewer than two values, or a node of another kind, ends the walk with
  \<open>None\<close>.
\<close>

datatype visit = Visit (visit_depth: nat) (visit_operands: "(nat \<times> nat) option")

fun vstack_walk :: "nat list \<Rightarrow> nat \<Rightarrow> Ast list \<Rightarrow> visit list option" where
  "vstack_walk stk i [] = Some []"
| "vstack_walk stk i (n # ns) =
     (if ast_is_leaf n then
        map_option ((#) (Visit (length stk) None)) (vstack_walk (i # stk) (Suc i) ns)
      else if ast_is_binary n then
        (case stk of
           r # l # rest \<Rightarrow>
             map_option ((#) (Visit (length rest) (Some (l, r))))
               (vstack_walk (if ast_kind n = AstKind_val AST_ASSIGN then rest else i # rest)
                  (Suc i) ns)
         | _ \<Rightarrow> None)
      else None)"

text \<open>
  The same depths computed from the kinds alone, with a counter in place of the stack.
\<close>

fun kind_depths :: "nat \<Rightarrow> 32 word list \<Rightarrow> nat list option" where
  "kind_depths d [] = Some []"
| "kind_depths d (k # ks) =
     (if k = AstKind_val AST_NAME \<or> k = AstKind_val AST_CONST then
        map_option ((#) d) (kind_depths (Suc d) ks)
      else if k = AstKind_val AST_ASSIGN \<or> k = AstKind_val AST_ADD \<or> k = AstKind_val AST_MUL then
        (if d < 2 then None
         else map_option ((#) (d - 2))
                (kind_depths (if k = AstKind_val AST_ASSIGN then d - 2 else d - 1) ks))
      else None)"

text \<open>
  A snippet is named by its operation, the depth of the virtual stack and the shape of
  its continuation, as in \<open>load_2_fallthrough\<close>; \<open>main\<close> only uses \<open>fallthrough\<close>.
\<close>

datatype snippet_op = OP_load_addr | OP_load | OP_const | OP_add | OP_mul | OP_assign_indirect

datatype snippet = Snippet (snippet_op: snippet_op) (snippet_depth: nat)

definition load_addr_0_fallthrough :: snippet where
  "load_addr_0_fallthrough = Snippet OP_load_addr 0"

definition load_1_fallthrough :: snippet where
  "load_1_fallthrough = Snippet OP_load 1"

definition load_2_fallthrough :: snippet where
  "load_2_fallthrough = Snippet OP_load 2"

definition load_3_fallthrough :: snippet where
  "load_3_fallthrough = Snippet OP_load 3"

definition const_3_fallthrough :: snippet where
  "const_3_fallthrough = Snippet OP_const 3"

definition add_1_fallthrough :: snippet where
  "add_1_fallthrough = Snippet OP_add 1"

definition add_2_fallthrough :: snippet where
  "add_2_fallthrough = Snippet OP_add 2"

definition mul_1_fallthrough :: snippet where
  "mul_1_fallthrough = Snippet OP_mul 1"

definition mul_2_fallthrough :: snippet where
  "mul_2_fallthrough = Snippet OP_mul 2"

definition assign_indirect_0_fallthrough :: snippet where
  "assign_indirect_0_fallthrough = Snippet OP_assign_indirect 0"

lemmas snippet_defs =
  load_addr_0_fallthrough_def load_1_fallthrough_def load_2_fallthrough_def
  load_3_fallthrough_def const_3_fallthrough_def add_1_fallthrough_def add_2_fallthrough_def
  mul_1_fallthrough_def mul_2_fallthrough_def assign_indirect_0_fallthrough_def

text \<open>
  The second argument of a snippet call: none, \<open>BYTE_OFFSET_OF_LOCAL(name)\<close>, or a
  literal.
\<close>

datatype arg = NoArg | LocalAddr string | Literal int

text \<open>The thirteen calls of lines 289-325, in order.\<close>

definition stitch_calls :: "(snippet \<times> arg) list" where
  "stitch_calls =
    [ (load_addr_0_fallthrough, LocalAddr ''a''),
      (load_1_fallthrough, LocalAddr ''b''),
      (load_2_fallthrough, LocalAddr ''c''),
      (add_1_fallthrough, NoArg),
      (load_2_fallthrough, LocalAddr ''f''),
      (load_3_fallthrough, LocalAddr ''g''),
      (mul_2_fallthrough, NoArg),
      (add_1_fallthrough, NoArg),
      (load_2_fallthrough, LocalAddr ''d''),
      (const_3_fallthrough, Literal 3),
      (add_2_fallthrough, NoArg),
      (mul_1_fallthrough, NoArg),
      (assign_indirect_0_fallthrough, NoArg) ]"

lemma ast_is_leaf_UNARYOP: "ast_is_leaf (UNARYOP k v) = (k = AST_NAME \<or> k = AST_CONST)"
  by (cases k) (simp_all add: ast_is_leaf_def ast_kind_UNARYOP)

lemma ast_is_leaf_UNARYOP_LVAL:
  "ast_is_leaf (UNARYOP_LVAL k v) = (k = AST_NAME \<or> k = AST_CONST)"
  by (cases k) (simp_all add: ast_is_leaf_def ast_kind_UNARYOP_LVAL)

lemma ast_is_leaf_BINOP: "ast_is_leaf (BINOP k v) = (k = AST_NAME \<or> k = AST_CONST)"
  by (cases k) (simp_all add: ast_is_leaf_def ast_kind_BINOP)

lemma ast_is_binary_BINOP:
  "ast_is_binary (BINOP k v) = (k = AST_ASSIGN \<or> k = AST_ADD \<or> k = AST_MUL)"
  by (cases k) (simp_all add: ast_is_binary_def ast_kind_BINOP)

lemma ast_is_binary_UNARYOP:
  "ast_is_binary (UNARYOP k v) = (k = AST_ASSIGN \<or> k = AST_ADD \<or> k = AST_MUL)"
  by (cases k) (simp_all add: ast_is_binary_def ast_kind_UNARYOP)

lemma ast_is_binary_UNARYOP_LVAL:
  "ast_is_binary (UNARYOP_LVAL k v) = (k = AST_ASSIGN \<or> k = AST_ADD \<or> k = AST_MUL)"
  by (cases k) (simp_all add: ast_is_binary_def ast_kind_UNARYOP_LVAL)

lemma take_bit_BINOP: "take_bit 20 (BINOP k d) = AstKind_val k"
  unfolding BINOP_def mask12
  by (rule bit_word_eqI) (auto simp: bit_simps dest: AstKind_val_bit)

lemma vstack_walk_nodes:
  "vstack_walk [] 0 nodes =
     Some [Visit 0 None, Visit 1 None, Visit 2 None, Visit 1 (Some (1, 2)), Visit 2 None,
           Visit 3 None, Visit 2 (Some (4, 5)), Visit 1 (Some (3, 6)), Visit 2 None,
           Visit 3 None, Visit 2 (Some (8, 9)), Visit 1 (Some (7, 10)), Visit 0 (Some (0, 11))]"
  by (simp add: nodes_def ast_is_leaf_UNARYOP ast_is_leaf_UNARYOP_LVAL ast_is_leaf_BINOP
      ast_is_binary_BINOP ast_kind_BINOP)

lemma map_option_Cons:
  "map_option (map f) (map_option ((#) x) r) = map_option ((#) (f x)) (map_option (map f) r)"
  by (cases r) simp_all

lemma vstack_walk_depths:
  "map_option (map visit_depth) (vstack_walk stk i ns)
     = kind_depths (length stk) (map ast_kind ns)"
proof (induction ns arbitrary: stk i)
  case Nil
  show ?case by simp
next
  case (Cons n ns)
  show ?case
  proof (cases "ast_is_leaf n")
    case True
    then show ?thesis
      using Cons.IH [of "i # stk" "Suc i"]
      by (simp add: ast_is_leaf_def map_option_Cons)
  next
    case leaf: False
    show ?thesis
    proof (cases "ast_is_binary n")
      case False
      with leaf show ?thesis by (simp add: ast_is_leaf_def ast_is_binary_def)
    next
      case bin: True
      show ?thesis
      proof (cases stk)
        case Nil
        with leaf bin show ?thesis by (simp add: ast_is_leaf_def ast_is_binary_def)
      next
        case c1: (Cons r stk1)
        show ?thesis
        proof (cases stk1)
          case Nil
          with c1 leaf bin show ?thesis by (simp add: ast_is_leaf_def ast_is_binary_def)
        next
          case c2: (Cons l rest)
          show ?thesis
            using leaf bin c1 c2 Cons.IH [of rest "Suc i"] Cons.IH [of "i # rest" "Suc i"]
            by (simp add: ast_is_leaf_def ast_is_binary_def map_option_Cons)
        qed
      qed
    qed
  qed
qed

text \<open>
  C5. For every node of \<open>nodes\<close>, the depth in the name of the snippet stitched for it
  (the \<open>_0_\<close>, \<open>_1_\<close>, ... of the thirteen calls) is the number of values not yet
  consumed below the node's result in the virtual-stack simulation of the postorder
  walk. For any node sequence and any starting stack these depths are a function of the
  sequence of node kinds and of the starting depth alone: token indices,
  displacements and the lvalue flag do not enter, and nothing else does.
\<close>

theorem snippet_depth_is_vstack_depth:
  "map_option (map visit_depth) (vstack_walk [] 0 nodes)
     = Some (map (snippet_depth \<circ> fst) stitch_calls)
   \<and> map_option (map visit_depth) (vstack_walk stk i ns)
     = kind_depths (length stk) (map ast_kind ns)"
  by (simp add: vstack_walk_nodes stitch_calls_def snippet_defs vstack_walk_depths)

text \<open>
  C6. In \<open>nodes\<close>, the operands that the simulation finds for each binary node are the
  ones the encoding gives: the right operand is the node immediately before it, and the
  left operand, the root of the left subtree, is the node \<open>lhs_displ\<close> places back. A
  binary node stores nothing else: bits 0-19 hold the kind alone and bits 20-31 the
  displacement.
\<close>

theorem binary_operands_by_adjacency_and_displacement:
  "map_option (map visit_operands) (vstack_walk [] 0 nodes)
     = Some (map (stored_operands nodes) [0..<length nodes])
   \<and> take_bit 20 (BINOP k d) = AstKind_val k
   \<and> drop_bit 20 (BINOP k d) = d AND 0xfff"
proof -
  have "map (stored_operands nodes) [0..<length nodes]
          = [None, None, None, Some (1, 2), None, None, Some (4, 5), Some (3, 6), None, None,
             Some (8, 9), Some (7, 10), Some (0, 11)]"
    by (simp add: nodes_def upt_rec stored_operands_def ast_is_binary_BINOP
        ast_is_binary_UNARYOP ast_is_binary_UNARYOP_LVAL ast_lhs_displ_def drop_bit_BINOP)
  then show ?thesis
    by (simp add: vstack_walk_nodes take_bit_BINOP drop_bit_BINOP)
qed

section \<open>The memory service, the code buffer and the locals (cnp.c, lines 239-255)\<close>

text \<open>
  A byte address. The pointer arithmetic of \<open>main\<close> stays inside one reservation, which
  does not wrap around the address space, so addresses are plain integers.
\<close>

type_synonym addr = int

text \<open>The page protections \<open>main\<close> uses, and what each permits.\<close>

datatype protection = PAGE_NOACCESS | PAGE_READWRITE | PAGE_EXECUTE_READ | PAGE_EXECUTE_READWRITE

fun can_read :: "protection \<Rightarrow> bool" where
  "can_read PAGE_NOACCESS = False"
| "can_read _ = True"

fun can_write :: "protection \<Rightarrow> bool" where
  "can_write PAGE_READWRITE = True"
| "can_write PAGE_EXECUTE_READWRITE = True"
| "can_write _ = False"

fun can_execute :: "protection \<Rightarrow> bool" where
  "can_execute PAGE_EXECUTE_READ = True"
| "can_execute PAGE_EXECUTE_READWRITE = True"
| "can_execute _ = False"

text \<open>
  The operating system decides what \<open>VirtualAlloc\<close> returns (the base address, or
  \<open>NULL\<close>, which is 0, when it fails) and whether a \<open>VirtualProtect\<close> call succeeds.
  Both are parameters of the run.
\<close>

record memory_service =
  alloc_result :: addr
  protect_result :: "addr \<Rightarrow> int \<Rightarrow> protection \<Rightarrow> bool"

text \<open>
  Modelled from the spec: \<open>snippets.c\<close> is generated by \<open>clang_rip.py\<close> and is not
  among the sources. By the spec (section 6 and the glossary) a snippet is a precompiled,
  position-independent fragment of fixed length with at most one immediate patched in:
  a template of bytes and the offset of its hole. The bytes themselves are a parameter,
  the \<open>snippet_library\<close>.
\<close>

record template =
  t_bytes :: "8 word list"
  t_hole :: "nat option"

type_synonym snippet_library = "snippet \<Rightarrow> template"

text \<open>
  What stops a run: a store, load or instruction fetch that the page protection forbids
  (the trap of the hardware, not a result the program computes), a snippet run at a
  virtual-stack depth other than the one it was compiled for, and control reaching bytes
  that are no stitched snippet and no \<open>ret\<close>.
\<close>

datatype fault = AccessViolation addr | StackMismatch snippet | RanOff addr

text \<open>The steps of \<open>main\<close> that touch the code buffer or the memory service.\<close>

datatype event =
  EvVirtualAlloc | EvInitLocal string | EvStitch snippet | EvAppendRet
  | EvProtectCode | EvProtectLocals | EvInvoke

text \<open>
  The state of the run: the memory and its protection, the pointer variables of
  \<open>main\<close>, and three records kept for the proofs: the snippets stitched so far (address,
  snippet, immediate), the protection of the entry point at the moment of the call, and
  the steps taken. A fault is sticky: no step runs after it.
\<close>

record machine =
  mem :: "addr \<Rightarrow> 8 word"
  prot :: "addr \<Rightarrow> protection"
  locals_and_code :: addr
  code_seg :: addr
  locals :: addr
  code_p :: addr
  stitched :: "(addr \<times> snippet \<times> int) list"
  invoked_with :: "protection option"
  trace :: "event list"
  fault :: "fault option"

definition initial_machine :: machine where
  "initial_machine =
     \<lparr> mem = (\<lambda>a. 0), prot = (\<lambda>a. PAGE_NOACCESS), locals_and_code = 0, code_seg = 0,
       locals = 0, code_p = 0, stitched = [], invoked_with = None, trace = [], fault = None \<rparr>"

definition step :: "event \<Rightarrow> (machine \<Rightarrow> machine) \<Rightarrow> machine \<Rightarrow> machine" where
  "step e f m = (if fault m = None then f (m\<lparr>trace := trace m @ [e]\<rparr>) else m)"

fun run :: "(event \<times> (machine \<Rightarrow> machine)) list \<Rightarrow> machine \<Rightarrow> machine" where
  "run [] m = m"
| "run ((e, f) # ps) m = run ps (step e f m)"

text \<open>
  A store of bytes starting at \<open>a\<close>: it traps at the first address that is not
  writable, and otherwise writes the bytes in order. No other check is made.
\<close>

fun first_bad :: "(addr \<Rightarrow> bool) \<Rightarrow> addr \<Rightarrow> 'a list \<Rightarrow> addr option" where
  "first_bad ok a [] = None"
| "first_bad ok a (b # bs) = (if ok a then first_bad ok (a + 1) bs else Some a)"

fun write_bytes :: "(addr \<Rightarrow> 8 word) \<Rightarrow> addr \<Rightarrow> 8 word list \<Rightarrow> (addr \<Rightarrow> 8 word)" where
  "write_bytes f a [] = f"
| "write_bytes f a (b # bs) = write_bytes (f(a := b)) (a + 1) bs"

definition store_bytes :: "addr \<Rightarrow> 8 word list \<Rightarrow> machine \<Rightarrow> machine" where
  "store_bytes a bs m =
     (case first_bad (\<lambda>x. can_write (prot m x)) a bs of
        Some x \<Rightarrow> m\<lparr>fault := Some (AccessViolation x)\<rparr>
      | None \<Rightarrow> m\<lparr>mem := write_bytes (mem m) a bs\<rparr>)"

fun read_bytes :: "(addr \<Rightarrow> 8 word) \<Rightarrow> addr \<Rightarrow> nat \<Rightarrow> 8 word list" where
  "read_bytes f a 0 = []"
| "read_bytes f a (Suc n) = f a # read_bytes f (a + 1) n"

text \<open>An \<open>int\<close> is four bytes, least significant first.\<close>

definition int_bytes :: "32 word \<Rightarrow> 8 word list" where
  "int_bytes v = [ucast v, ucast (drop_bit 8 v), ucast (drop_bit 16 v), ucast (drop_bit 24 v)]"

definition store_int :: "addr \<Rightarrow> 32 word \<Rightarrow> machine \<Rightarrow> machine" where
  "store_int a v m = store_bytes a (int_bytes v) m"

definition mem_int :: "(addr \<Rightarrow> 8 word) \<Rightarrow> addr \<Rightarrow> 32 word" where
  "mem_int f a =
     ucast (f a) OR push_bit 8 (ucast (f (a + 1))) OR push_bit 16 (ucast (f (a + 2)))
       OR push_bit 24 (ucast (f (a + 3)))"

definition load_int :: "machine \<Rightarrow> addr \<Rightarrow> addr + 32 word" where
  "load_int m a =
     (case filter (\<lambda>x. \<not> can_read (prot m x)) [a, a + 1, a + 2, a + 3] of
        x # xs \<Rightarrow> Inl x
      | [] \<Rightarrow> Inr (mem_int (mem m) a))"

text \<open>
  \<open>region b sz v f\<close> is \<open>f\<close> with the \<open>sz\<close> addresses from \<open>b\<close> set to \<open>v\<close>.
\<close>

definition region :: "addr \<Rightarrow> int \<Rightarrow> 'a \<Rightarrow> (addr \<Rightarrow> 'a) \<Rightarrow> (addr \<Rightarrow> 'a)" where
  "region b sz v f = (\<lambda>a. if b \<le> a \<and> a < b + sz then v else f a)"

text \<open>
  \<open>VirtualAlloc(NULL, size, MEM_RESERVE | MEM_COMMIT, protection)\<close>: on success the
  pages are committed, zeroed and given the protection, and the base is returned; on
  failure nothing changes and \<open>NULL\<close> is returned.
\<close>

definition VirtualAlloc :: "memory_service \<Rightarrow> int \<Rightarrow> protection \<Rightarrow> machine \<Rightarrow> addr \<times> machine" where
  "VirtualAlloc os sz p m =
     (let b = alloc_result os
      in if b = 0 then (0, m)
         else (b, m\<lparr> prot := region b sz p (prot m), mem := region b sz 0 (mem m) \<rparr>))"

text \<open>
  \<open>VirtualProtect(address, size, protection, &old_protect)\<close>: on success the range gets
  the new protection, on failure nothing changes. \<open>main\<close> discards the result.
\<close>

definition VirtualProtect :: "memory_service \<Rightarrow> addr \<Rightarrow> int \<Rightarrow> protection \<Rightarrow> machine \<Rightarrow> machine" where
  "VirtualProtect os a sz p m =
     (if protect_result os a sz p
      then m\<lparr> prot := region a sz p (prot m) \<rparr>
      else m)"

text \<open>
  Lines 241-245: one reservation of \<open>128 << 10\<close> bytes; the code starts at its base,
  the locals \<open>64 << 10\<close> bytes above. The result of \<open>VirtualAlloc\<close> is not tested.
\<close>

definition reserve :: "memory_service \<Rightarrow> machine \<Rightarrow> machine" where
  "reserve os m =
     (case VirtualAlloc os (128 * 1024) PAGE_EXECUTE_READWRITE m of
        (b, m') \<Rightarrow> m'\<lparr> locals_and_code := b, code_seg := b, locals := b + 64 * 1024, code_p := b \<rparr>)"

text \<open>
  \<open>#define BYTE_OFFSET_OF_LOCAL(name) ((uintptr_t) & locals[(name[0] - 'a')])\<close>, with
  \<open>locals\<close> an \<open>int*\<close>: four bytes per slot. The first argument is the pointer
  \<open>locals\<close>.
\<close>

definition char_to_int :: "char \<Rightarrow> int" where
  "char_to_int c = sint (of_char c :: 8 word)"

definition BYTE_OFFSET_OF_LOCAL :: "addr \<Rightarrow> string \<Rightarrow> addr" where
  "BYTE_OFFSET_OF_LOCAL locals_ptr name =
     locals_ptr + 4 * (char_to_int (first_char name) - char_to_int CHR ''a'')"

text \<open>\<open>*(int*)BYTE_OFFSET_OF_LOCAL(name) = v\<close> (lines 249-255).\<close>

definition store_local :: "string \<Rightarrow> 32 word \<Rightarrow> machine \<Rightarrow> machine" where
  "store_local name v m = store_int (BYTE_OFFSET_OF_LOCAL (locals m) name) v m"

definition init_locals :: "(event \<times> (machine \<Rightarrow> machine)) list" where
  "init_locals =
     [ (EvInitLocal ''a'', store_local ''a'' 0x1111),
       (EvInitLocal ''b'', store_local ''b'' 2),
       (EvInitLocal ''c'', store_local ''c'' 3),
       (EvInitLocal ''d'', store_local ''d'' 4),
       (EvInitLocal ''e'', store_local ''e'' 0),
       (EvInitLocal ''f'', store_local ''f'' 6),
       (EvInitLocal ''g'', store_local ''g'' 7) ]"

text \<open>\<open>locals[i]\<close>, as the last \<open>printf\<close> reads \<open>locals[0]\<close>.\<close>

definition read_local :: "machine \<Rightarrow> int \<Rightarrow> addr + 32 word" where
  "read_local m i = load_int m (locals m + 4 * i)"

section \<open>Stitching (cnp.c, lines 289-333)\<close>

text \<open>
  Modelled from the spec: the snippet functions are in the absent \<open>snippets.c\<close>. By
  the spec (sections 4.4 and 6) a snippet function takes the write pointer and, for loads
  and constants, one immediate; it copies its fixed-length bytes to the pointer with the
  immediate patched in, and returns the pointer advanced by that length. Patching
  overwrites bytes of the template and never changes its length.
\<close>

fun overwrite :: "'a list \<Rightarrow> nat \<Rightarrow> 'a list \<Rightarrow> 'a list" where
  "overwrite xs i [] = xs"
| "overwrite xs i (y # ys) = overwrite (xs[i := y]) (Suc i) ys"

definition imm_bytes :: "int \<Rightarrow> 8 word list" where
  "imm_bytes v = map (\<lambda>k. word_of_int (drop_bit (8 * k) v)) [0, 1, 2, 3, 4, 5, 6, 7]"

definition patch :: "template \<Rightarrow> int \<Rightarrow> 8 word list" where
  "patch t v = (case t_hole t of None \<Rightarrow> t_bytes t | Some h \<Rightarrow> overwrite (t_bytes t) h (imm_bytes v))"

definition snippet_length :: "snippet_library \<Rightarrow> snippet \<Rightarrow> nat" where
  "snippet_length lib s = length (t_bytes (lib s))"

fun arg_value :: "addr \<Rightarrow> arg \<Rightarrow> int" where
  "arg_value locals_ptr NoArg = 0"
| "arg_value locals_ptr (LocalAddr name) = BYTE_OFFSET_OF_LOCAL locals_ptr name"
| "arg_value locals_ptr (Literal v) = v"

text \<open>
  One statement \<open>code_p = snippet(code_p, argument);\<close> of \<open>main\<close>: the snippet writes at
  \<open>code_p\<close>, and \<open>code_p\<close> becomes the pointer it returns. There is no test of
  \<open>code_p\<close> against the end of the code region.
\<close>

definition call_snippet :: "snippet_library \<Rightarrow> snippet \<Rightarrow> arg \<Rightarrow> machine \<Rightarrow> machine" where
  "call_snippet lib s a m =
     (let v = arg_value (locals m) a;
          bs = patch (lib s) v;
          m' = store_bytes (code_p m) bs m
      in if fault m' = None
         then m'\<lparr> code_p := code_p m + int (length bs),
                  stitched := stitched m @ [(code_p m, s, v)] \<rparr>
         else m')"

definition stitch :: "snippet_library \<Rightarrow> (snippet \<times> arg) list \<Rightarrow> (event \<times> (machine \<Rightarrow> machine)) list" where
  "stitch lib cs = map (\<lambda>(s, a). (EvStitch s, call_snippet lib s a)) cs"

text \<open>\<open>*code_p++ = 0xc3;\<close> (line 333).\<close>

definition append_ret :: "machine \<Rightarrow> machine" where
  "append_ret m =
     (let m' = store_bytes (code_p m) [0xc3] m
      in if fault m' = None then m'\<lparr> code_p := code_p m + 1 \<rparr> else m')"

text \<open>
  What a sequence of calls writes, as functions of the calls alone: the memory, the
  snippets with their addresses, the bytes of one call, and the sum of the lengths.
\<close>

fun stitch_mem ::
  "snippet_library \<Rightarrow> addr \<Rightarrow> addr \<Rightarrow> (snippet \<times> arg) list \<Rightarrow> (addr \<Rightarrow> 8 word) \<Rightarrow> (addr \<Rightarrow> 8 word)" where
  "stitch_mem lib l p [] f = f"
| "stitch_mem lib l p ((s, a) # cs) f =
     stitch_mem lib l (p + int (snippet_length lib s)) cs
       (write_bytes f p (patch (lib s) (arg_value l a)))"

fun layout ::
  "snippet_library \<Rightarrow> addr \<Rightarrow> addr \<Rightarrow> (snippet \<times> arg) list \<Rightarrow> (addr \<times> snippet \<times> int) list" where
  "layout lib l p [] = []"
| "layout lib l p ((s, a) # cs) =
     (p, s, arg_value l a) # layout lib l (p + int (snippet_length lib s)) cs"

definition snippet_bytes :: "snippet_library \<Rightarrow> addr \<Rightarrow> snippet \<times> arg \<Rightarrow> 8 word list" where
  "snippet_bytes lib l c = patch (lib (fst c)) (arg_value l (snd c))"

definition total_length :: "snippet_library \<Rightarrow> (snippet \<times> arg) list \<Rightarrow> nat" where
  "total_length lib cs = sum_list (map (\<lambda>(s, a). snippet_length lib s) cs)"

section \<open>Running the generated code (cnp.c, line 347)\<close>

text \<open>
  Modelled from the spec: what the bytes of a snippet do is in the absent \<open>snippets.c\<close>.
  By the spec (sections 4.2 and 4.3) and the \<open>vstack now [...]\<close> comments of \<open>main\<close>, a
  snippet of depth \<open>d\<close> runs with \<open>d\<close> values below its operands: \<open>load_addr\<close> pushes
  the address it was given, \<open>load\<close> the \<open>int\<close> at that address, \<open>const\<close> its
  literal; \<open>add\<close> and \<open>mul\<close> replace the two topmost values by their sum or product
  in \<open>int\<close> arithmetic; \<open>assign_indirect\<close> stores the topmost value at the address
  below it and leaves neither.
\<close>

datatype vval = VInt "32 word" | VAddr int

record cpu =
  pc :: addr
  vstack :: "vval list"
  core :: machine

definition mismatch :: "snippet \<Rightarrow> cpu \<Rightarrow> cpu" where
  "mismatch s c = c\<lparr> core := (core c)\<lparr> fault := Some (StackMismatch s) \<rparr> \<rparr>"

fun exec_op :: "snippet_op \<Rightarrow> nat \<Rightarrow> int \<Rightarrow> cpu \<Rightarrow> cpu" where
  "exec_op OP_load_addr d v c =
     (if length (vstack c) = d then c\<lparr> vstack := VAddr v # vstack c \<rparr>
      else mismatch (Snippet OP_load_addr d) c)"
| "exec_op OP_load d v c =
     (if length (vstack c) = d then
        (case load_int (core c) v of
           Inl x \<Rightarrow> c\<lparr> core := (core c)\<lparr> fault := Some (AccessViolation x) \<rparr> \<rparr>
         | Inr w \<Rightarrow> c\<lparr> vstack := VInt w # vstack c \<rparr>)
      else mismatch (Snippet OP_load d) c)"
| "exec_op OP_const d v c =
     (if length (vstack c) = d then c\<lparr> vstack := VInt (word_of_int v) # vstack c \<rparr>
      else mismatch (Snippet OP_const d) c)"
| "exec_op OP_add d v c =
     (case vstack c of
        VInt r # VInt l # rest \<Rightarrow>
          if length rest = d then c\<lparr> vstack := VInt (l + r) # rest \<rparr>
          else mismatch (Snippet OP_add d) c
      | _ \<Rightarrow> mismatch (Snippet OP_add d) c)"
| "exec_op OP_mul d v c =
     (case vstack c of
        VInt r # VInt l # rest \<Rightarrow>
          if length rest = d then c\<lparr> vstack := VInt (l * r) # rest \<rparr>
          else mismatch (Snippet OP_mul d) c
      | _ \<Rightarrow> mismatch (Snippet OP_mul d) c)"
| "exec_op OP_assign_indirect d v c =
     (case vstack c of
        VInt r # VAddr l # rest \<Rightarrow>
          if length rest = d then c\<lparr> vstack := rest, core := store_int l r (core c) \<rparr>
          else mismatch (Snippet OP_assign_indirect d) c
      | _ \<Rightarrow> mismatch (Snippet OP_assign_indirect d) c)"

text \<open>
  A snippet runs when control is at its first byte and that byte may be executed; with
  the \<open>fallthrough\<close> continuation control then is at the byte after its last.
\<close>

definition exec_snippet :: "snippet_library \<Rightarrow> addr \<times> snippet \<times> int \<Rightarrow> cpu \<Rightarrow> cpu" where
  "exec_snippet lib i c =
     (case i of (a, s, v) \<Rightarrow>
        if fault (core c) \<noteq> None then c
        else if a \<noteq> pc c then c\<lparr> core := (core c)\<lparr> fault := Some (RanOff (pc c)) \<rparr> \<rparr>
        else if \<not> can_execute (prot (core c) a)
          then c\<lparr> core := (core c)\<lparr> fault := Some (AccessViolation a) \<rparr> \<rparr>
        else (exec_op (snippet_op s) (snippet_depth s) v c)
               \<lparr> pc := a + int (snippet_length lib s) \<rparr>)"

text \<open>The final \<open>ret\<close>: the byte \<open>0xc3\<close> must be where control arrives.\<close>

definition exec_ret :: "cpu \<Rightarrow> machine" where
  "exec_ret c =
     (let m = core c
      in if fault m \<noteq> None then m
         else if \<not> can_execute (prot m (pc c)) then m\<lparr> fault := Some (AccessViolation (pc c)) \<rparr>
         else if mem m (pc c) \<noteq> 0xc3 then m\<lparr> fault := Some (RanOff (pc c)) \<rparr>
         else m)"

text \<open>\<open>((void (*)())code_seg)();\<close>\<close>

definition invoke :: "snippet_library \<Rightarrow> machine \<Rightarrow> machine" where
  "invoke lib m =
     exec_ret (fold (exec_snippet lib) (stitched m)
       \<lparr> pc = code_seg m, vstack = [],
         core = m\<lparr> invoked_with := Some (prot m (code_seg m)) \<rparr> \<rparr>)"

text \<open>
  The snippet semantics alone, without the checks of address and protection.
\<close>

definition sem_call :: "addr \<Rightarrow> snippet \<times> arg \<Rightarrow> cpu \<Rightarrow> cpu" where
  "sem_call l c x =
     (if fault (core x) \<noteq> None then x
      else exec_op (snippet_op (fst c)) (snippet_depth (fst c)) (arg_value l (snd c)) x)"

section \<open>The program \<open>main\<close> (cnp.c, lines 241-349)\<close>

text \<open>
  Lines 333-347: the \<open>ret\<close> is appended, the code half is set to
  \<open>PAGE_EXECUTE_READ\<close>, the locals half to \<open>PAGE_READWRITE\<close>, and the code is called.
  The results of both \<open>VirtualProtect\<close> calls are discarded.
\<close>

definition finalize :: "memory_service \<Rightarrow> snippet_library \<Rightarrow> (event \<times> (machine \<Rightarrow> machine)) list" where
  "finalize os lib =
     [ (EvAppendRet, append_ret),
       (EvProtectCode, \<lambda>m. VirtualProtect os (code_seg m) (64 * 1024) PAGE_EXECUTE_READ m),
       (EvProtectLocals, \<lambda>m. VirtualProtect os (locals m) (64 * 1024) PAGE_READWRITE m),
       (EvInvoke, invoke lib) ]"

definition program :: "memory_service \<Rightarrow> snippet_library \<Rightarrow> (event \<times> (machine \<Rightarrow> machine)) list" where
  "program os lib = (EvVirtualAlloc, reserve os) # init_locals @ stitch lib stitch_calls @ finalize os lib"

definition main :: "memory_service \<Rightarrow> snippet_library \<Rightarrow> machine" where
  "main os lib = run (program os lib) initial_machine"

text \<open>The machine after line 333: everything is written, nothing is locked or called.\<close>

definition emitted :: "memory_service \<Rightarrow> snippet_library \<Rightarrow> machine" where
  "emitted os lib =
     run ((EvVirtualAlloc, reserve os) # init_locals @ stitch lib stitch_calls
            @ [(EvAppendRet, append_ret)]) initial_machine"

text \<open>The steps of \<open>main\<close> in program order.\<close>

definition main_events :: "event list" where
  "main_events =
     EvVirtualAlloc # map (\<lambda>p. fst p) init_locals @ map (\<lambda>c. EvStitch (fst c)) stitch_calls
       @ [EvAppendRet, EvProtectCode, EvProtectLocals, EvInvoke]"

text \<open>
  The memory and the protection at the end of a run in which the reservation succeeds
  and the code fits below the locals.
\<close>

definition init_mem :: "addr \<Rightarrow> (addr \<Rightarrow> 8 word)" where
  "init_mem b =
     fold (\<lambda>(name, v) f. write_bytes f (BYTE_OFFSET_OF_LOCAL (b + 64 * 1024) name) (int_bytes v))
       [(''a'', 0x1111), (''b'', 2), (''c'', 3), (''d'', 4), (''e'', 0), (''f'', 6), (''g'', 7)]
       (region b (128 * 1024) 0 (\<lambda>a. 0))"

definition protect_map ::
  "memory_service \<Rightarrow> addr \<Rightarrow> int \<Rightarrow> protection \<Rightarrow> (addr \<Rightarrow> protection) \<Rightarrow> (addr \<Rightarrow> protection)" where
  "protect_map os a sz p f = (if protect_result os a sz p then region a sz p f else f)"

definition final_prot :: "memory_service \<Rightarrow> addr \<Rightarrow> (addr \<Rightarrow> protection)" where
  "final_prot os b =
     protect_map os (b + 64 * 1024) (64 * 1024) PAGE_READWRITE
       (protect_map os b (64 * 1024) PAGE_EXECUTE_READ
          (region b (128 * 1024) PAGE_EXECUTE_READWRITE (\<lambda>a. PAGE_NOACCESS)))"

definition final_mem :: "snippet_library \<Rightarrow> addr \<Rightarrow> (addr \<Rightarrow> 8 word)" where
  "final_mem lib b =
     write_bytes
       (write_bytes (stitch_mem lib (b + 64 * 1024) b stitch_calls (init_mem b))
          (b + int (total_length lib stitch_calls)) [0xc3])
       (b + 64 * 1024) (int_bytes 329)"

text \<open>
  The memory after line 333, and the bytes written to the code region up to there: the
  snippets in the order of their calls, then the \<open>ret\<close>.
\<close>

definition emitted_mem :: "snippet_library \<Rightarrow> addr \<Rightarrow> (addr \<Rightarrow> 8 word)" where
  "emitted_mem lib b =
     write_bytes (stitch_mem lib (b + 64 * 1024) b stitch_calls (init_mem b))
       (b + int (total_length lib stitch_calls)) [0xc3]"

definition emitted_bytes :: "snippet_library \<Rightarrow> addr \<Rightarrow> 8 word list" where
  "emitted_bytes lib l = concat (map (snippet_bytes lib l) stitch_calls) @ [0xc3]"

text \<open>
  A memory service that succeeds, one whose protection changes fail, one whose
  reservation fails, a library of one-byte snippets and a library of snippets of 5042
  bytes, thirteen of which do not fit below the locals: concrete inputs for the theorems
  below.
\<close>

definition service_ok :: memory_service where
  "service_ok = \<lparr> alloc_result = 0x10000, protect_result = (\<lambda>a sz p. True) \<rparr>"



definition tiny_library :: snippet_library where
  "tiny_library = (\<lambda>s. \<lparr> t_bytes = [0x90], t_hole = None \<rparr>)"

definition bulky_library :: snippet_library where
  "bulky_library = (\<lambda>s. \<lparr> t_bytes = replicate 5042 0x90, t_hole = None \<rparr>)"

section \<open>The order of the steps\<close>






section \<open>Facts about runs\<close>

lemma run_append: "run (ps @ qs) m = run qs (run ps m)"
  by (induction ps arbitrary: m) auto

lemma step_faulted: "fault m \<noteq> None \<Longrightarrow> step e f m = m"
  by (auto simp: step_def)

lemma run_faulted: "fault m \<noteq> None \<Longrightarrow> run ps m = m"
  by (induction ps arbitrary: m) (auto simp: step_faulted)
















lemma region_apply: "region b sz v f a = (if b \<le> a \<and> a < b + sz then v else f a)"
  by (simp add: region_def)

lemma first_bad_None:
  "(\<And>i. i < length bs \<Longrightarrow> ok (a + int i)) \<Longrightarrow> first_bad ok a bs = None"
proof (induction bs arbitrary: a)
  case Nil
  show ?case by simp
next
  case (Cons b bs)
  have "ok a" using Cons.prems [of 0] by simp
  moreover have "first_bad ok (a + 1) bs = None"
  proof (rule Cons.IH)
    fix i assume "i < length bs"
    then show "ok (a + 1 + int i)" using Cons.prems [of "Suc i"] by (simp add: algebra_simps)
  qed
  ultimately show ?case by simp
qed

lemma write_bytes_outside:
  "x < a \<or> a + int (length bs) \<le> x \<Longrightarrow> write_bytes f a bs x = f x"
  by (induction bs arbitrary: f a) auto

lemma write_bytes_inside:
  "a \<le> x \<Longrightarrow> x < a + int (length bs) \<Longrightarrow> write_bytes f a bs x = bs ! nat (x - a)"
proof (induction bs arbitrary: f a)
  case Nil
  then show ?case by simp
next
  case (Cons b bs)
  show ?case
  proof (cases "x = a")
    case True
    then show ?thesis by (simp add: write_bytes_outside)
  next
    case False
    with Cons.prems have "a + 1 \<le> x" and "x < a + 1 + int (length bs)" by simp_all
    then have "write_bytes (f(a := b)) (a + 1) bs x = bs ! nat (x - (a + 1))" by (rule Cons.IH)
    moreover have "nat (x - a) = Suc (nat (x - (a + 1)))" using \<open>a + 1 \<le> x\<close> by simp
    ultimately show ?thesis by simp
  qed
qed

lemma length_overwrite: "length (overwrite xs i ys) = length xs"
  by (induction ys arbitrary: xs i) simp_all

lemma length_patch: "length (patch t v) = length (t_bytes t)"
  by (simp add: patch_def length_overwrite split: option.splits)

lemma total_length_Cons:
  "total_length lib ((s, a) # cs) = snippet_length lib s + total_length lib cs"
  by (simp add: total_length_def)

lemma total_length_Nil: "total_length lib [] = 0"
  by (simp add: total_length_def)

lemma stitch_mem_outside:
  "x < p \<or> p + int (total_length lib cs) \<le> x \<Longrightarrow> stitch_mem lib l p cs f x = f x"
proof (induction cs arbitrary: p f)
  case Nil
  show ?case by simp
next
  case (Cons c cs)
  obtain s a where c: "c = (s, a)" by (cases c)
  from Cons.prems c
  have 1: "x < p + int (snippet_length lib s) \<or> p + int (snippet_length lib s) + int (total_length lib cs) \<le> x"
    by (auto simp: total_length_Cons)
  from Cons.prems c
  have 2: "x < p \<or> p + int (length (patch (lib s) (arg_value l a))) \<le> x"
    by (auto simp: total_length_Cons length_patch snippet_length_def)
  show ?case
    using Cons.IH [OF 1] 2 c by (simp add: write_bytes_outside)
qed

lemma store_bytes_ok:
  assumes "\<And>i. i < length bs \<Longrightarrow> can_write (prot m (a + int i))"
  shows "store_bytes a bs m = m\<lparr>mem := write_bytes (mem m) a bs\<rparr>"
  using first_bad_None [of bs "\<lambda>x. can_write (prot m x)" a] assms
  by (simp add: store_bytes_def)

lemma run_stitch:
  assumes "fault m = None"
    and "\<And>x. code_p m \<le> x \<Longrightarrow> x < code_p m + int (total_length lib cs) \<Longrightarrow> can_write (prot m x)"
  shows "run (stitch lib cs) m =
           m\<lparr> mem := stitch_mem lib (locals m) (code_p m) cs (mem m),
              code_p := code_p m + int (total_length lib cs),
              stitched := stitched m @ layout lib (locals m) (code_p m) cs,
              trace := trace m @ map (\<lambda>c. EvStitch (fst c)) cs \<rparr>"
  using assms
proof (induction cs arbitrary: m)
  case Nil
  show ?case by (simp add: stitch_def total_length_Nil)
next
  case (Cons c cs)
  obtain s a where c: "c = (s, a)" by (cases c)
  define bs where "bs = patch (lib s) (arg_value (locals m) a)"
  have len: "length bs = snippet_length lib s" by (simp add: bs_def length_patch snippet_length_def)
  have w: "store_bytes (code_p m) bs (m\<lparr>trace := trace m @ [EvStitch s]\<rparr>)
             = m\<lparr>trace := trace m @ [EvStitch s], mem := write_bytes (mem m) (code_p m) bs\<rparr>"
  proof -
    have "store_bytes (code_p m) bs (m\<lparr>trace := trace m @ [EvStitch s]\<rparr>)
            = (m\<lparr>trace := trace m @ [EvStitch s]\<rparr>)
                \<lparr>mem := write_bytes (mem (m\<lparr>trace := trace m @ [EvStitch s]\<rparr>)) (code_p m) bs\<rparr>"
    proof (rule store_bytes_ok)
      fix i assume "i < length bs"
      then show "can_write (prot (m\<lparr>trace := trace m @ [EvStitch s]\<rparr>) (code_p m + int i))"
        using Cons.prems(2) [of "code_p m + int i"] len c
        by (simp add: total_length_Cons)
    qed
    then show ?thesis by simp
  qed
  define m1 where "m1 = m\<lparr> trace := trace m @ [EvStitch s],
                           mem := write_bytes (mem m) (code_p m) bs,
                           code_p := code_p m + int (snippet_length lib s),
                           stitched := stitched m @ [(code_p m, s, arg_value (locals m) a)] \<rparr>"
  have "call_snippet lib s a (m\<lparr>trace := trace m @ [EvStitch s]\<rparr>) = m1"
    unfolding call_snippet_def Let_def
    using Cons.prems(1) w len by (simp add: bs_def [symmetric] m1_def)
  then have s1: "step (EvStitch s) (call_snippet lib s a) m = m1"
    using Cons.prems(1) by (simp add: step_def)
  have f1: "fault m1 = None" using Cons.prems(1) by (simp add: m1_def)
  have p1: "\<And>x. code_p m1 \<le> x \<Longrightarrow> x < code_p m1 + int (total_length lib cs) \<Longrightarrow> can_write (prot m1 x)"
    using Cons.prems(2) c by (simp add: m1_def total_length_Cons)
  have "run (stitch lib (c # cs)) m = run (stitch lib cs) m1"
    using s1 c by (simp add: stitch_def)
  also have "\<dots> = m1\<lparr> mem := stitch_mem lib (locals m1) (code_p m1) cs (mem m1),
              code_p := code_p m1 + int (total_length lib cs),
              stitched := stitched m1 @ layout lib (locals m1) (code_p m1) cs,
              trace := trace m1 @ map (\<lambda>c. EvStitch (fst c)) cs \<rparr>"
    using f1 p1 by (rule Cons.IH)
  also have "\<dots> = m\<lparr> mem := stitch_mem lib (locals m) (code_p m) (c # cs) (mem m),
              code_p := code_p m + int (total_length lib (c # cs)),
              stitched := stitched m @ layout lib (locals m) (code_p m) (c # cs),
              trace := trace m @ map (\<lambda>c. EvStitch (fst c)) (c # cs) \<rparr>"
    by (simp add: m1_def c bs_def total_length_Cons algebra_simps)
  finally show ?case .
qed

lemma char_to_int_a: "char_to_int CHR ''a'' = 97"
  by (simp add: char_to_int_def)

lemma BYTE_OFFSET_simps:
  "BYTE_OFFSET_OF_LOCAL l ''a'' = l"
  "BYTE_OFFSET_OF_LOCAL l ''b'' = l + 4"
  "BYTE_OFFSET_OF_LOCAL l ''c'' = l + 8"
  "BYTE_OFFSET_OF_LOCAL l ''d'' = l + 12"
  "BYTE_OFFSET_OF_LOCAL l ''e'' = l + 16"
  "BYTE_OFFSET_OF_LOCAL l ''f'' = l + 20"
  "BYTE_OFFSET_OF_LOCAL l ''g'' = l + 24"
  by (simp_all add: BYTE_OFFSET_OF_LOCAL_def char_to_int_def)


lemma length_int_bytes: "length (int_bytes v) = 4"
  by (simp add: int_bytes_def)

lemma step_store_local:
  assumes "fault m = None"
    and "\<And>i. i < 4 \<Longrightarrow> can_write (prot m (BYTE_OFFSET_OF_LOCAL (locals m) name + int i))"
  shows "step e (store_local name v) m =
           m\<lparr> trace := trace m @ [e],
              mem := write_bytes (mem m) (BYTE_OFFSET_OF_LOCAL (locals m) name) (int_bytes v) \<rparr>"
proof -
  have "store_bytes (BYTE_OFFSET_OF_LOCAL (locals m) name) (int_bytes v) (m\<lparr>trace := trace m @ [e]\<rparr>)
          = (m\<lparr>trace := trace m @ [e]\<rparr>)
              \<lparr>mem := write_bytes (mem (m\<lparr>trace := trace m @ [e]\<rparr>))
                       (BYTE_OFFSET_OF_LOCAL (locals m) name) (int_bytes v)\<rparr>"
    by (rule store_bytes_ok) (simp add: length_int_bytes assms(2))
  then show ?thesis
    using assms(1) by (simp add: step_def store_local_def store_int_def)
qed

lemma can_write_region:
  "b \<le> x \<Longrightarrow> x < b + sz \<Longrightarrow> can_write (region b sz PAGE_EXECUTE_READWRITE f x)"
  by (simp add: region_apply)

lemma step_reserve:
  assumes "alloc_result os \<noteq> 0"
  shows "step EvVirtualAlloc (reserve os) initial_machine =
    \<lparr> mem = region (alloc_result os) (128 * 1024) 0 (\<lambda>a. 0),
      prot = region (alloc_result os) (128 * 1024) PAGE_EXECUTE_READWRITE (\<lambda>a. PAGE_NOACCESS),
      locals_and_code = alloc_result os, code_seg = alloc_result os,
      locals = alloc_result os + 64 * 1024, code_p = alloc_result os,
      stitched = [], invoked_with = None, trace = [EvVirtualAlloc], fault = None \<rparr>"
  using assms
  by (simp add: initial_machine_def step_def reserve_def VirtualAlloc_def Let_def)


lemma run_init:
  assumes "alloc_result os \<noteq> 0"
  shows "run ((EvVirtualAlloc, reserve os) # init_locals) initial_machine =
    \<lparr> mem = init_mem (alloc_result os),
      prot = region (alloc_result os) (128 * 1024) PAGE_EXECUTE_READWRITE (\<lambda>a. PAGE_NOACCESS),
      locals_and_code = alloc_result os, code_seg = alloc_result os,
      locals = alloc_result os + 64 * 1024, code_p = alloc_result os,
      stitched = [], invoked_with = None,
      trace = EvVirtualAlloc # map fst init_locals, fault = None \<rparr>"
  by (simp add: init_locals_def step_reserve [OF assms] step_store_local can_write_region
      BYTE_OFFSET_simps init_mem_def)


lemma mem_int_write_same: "mem_int (write_bytes f a (int_bytes v)) a = v"
proof -
  have "mem_int (write_bytes f a (int_bytes v)) a
          = ucast (ucast v :: 8 word) OR push_bit 8 (ucast (ucast (drop_bit 8 v) :: 8 word))
            OR push_bit 16 (ucast (ucast (drop_bit 16 v) :: 8 word))
            OR push_bit 24 (ucast (ucast (drop_bit 24 v) :: 8 word))"
    by (simp add: mem_int_def int_bytes_def)
  also have "\<dots> = v"
  proof (rule bit_word_eqI)
    fix n assume n: "n < LENGTH(32)"
    consider "n < 8" | "8 \<le> n" "n < 16" | "16 \<le> n" "n < 24" | "24 \<le> n" "n < 32"
      using n by fastforce
    then show "bit (ucast (ucast v :: 8 word) OR push_bit 8 (ucast (ucast (drop_bit 8 v) :: 8 word))
            OR push_bit 16 (ucast (ucast (drop_bit 16 v) :: 8 word))
            OR push_bit 24 (ucast (ucast (drop_bit 24 v) :: 8 word)) :: 32 word) n = bit v n"
      by cases (auto simp: bit_simps)
  qed
  finally show ?thesis .
qed

lemma mem_int_cong:
  "(\<And>k. 0 \<le> k \<Longrightarrow> k < 4 \<Longrightarrow> f (a + k) = g (a + k)) \<Longrightarrow> mem_int f a = mem_int g a"
proof -
  assume h: "\<And>k. 0 \<le> k \<Longrightarrow> k < 4 \<Longrightarrow> f (a + k) = g (a + k)"
  from h [of 0] h [of 1] h [of 2] h [of 3] show ?thesis by (simp add: mem_int_def)
qed

lemma mem_int_write_other:
  assumes "a' + 4 \<le> a \<or> a + int (length bs) \<le> a'"
  shows "mem_int (write_bytes f a bs) a' = mem_int f a'"
proof (rule mem_int_cong)
  fix k :: int assume "0 \<le> k" "k < 4"
  with assms have "a' + k < a \<or> a + int (length bs) \<le> a' + k" by arith
  then show "write_bytes f a bs (a' + k) = f (a' + k)" by (rule write_bytes_outside)
qed

lemma mem_int_stitch_mem:
  assumes "a' + 4 \<le> p \<or> p + int (total_length lib cs) \<le> a'"
  shows "mem_int (stitch_mem lib l p cs f) a' = mem_int f a'"
proof (rule mem_int_cong)
  fix k :: int assume "0 \<le> k" "k < 4"
  with assms have "a' + k < p \<or> p + int (total_length lib cs) \<le> a' + k" by arith
  then show "stitch_mem lib l p cs f (a' + k) = f (a' + k)" by (rule stitch_mem_outside)
qed

lemma mem_int_init_mem:
  "mem_int (init_mem b) (b + 65536 + 4) = 2"
  "mem_int (init_mem b) (b + 65536 + 8) = 3"
  "mem_int (init_mem b) (b + 65536 + 12) = 4"
  "mem_int (init_mem b) (b + 65536 + 20) = 6"
  "mem_int (init_mem b) (b + 65536 + 24) = 7"
  by (simp_all add: init_mem_def BYTE_OFFSET_simps mem_int_write_other mem_int_write_same
      length_int_bytes)

lemma load_int_ok:
  assumes "\<And>k. 0 \<le> k \<Longrightarrow> k < 4 \<Longrightarrow> can_read (prot m (a + k))"
  shows "load_int m a = Inr (mem_int (mem m) a)"
  using assms [of 0] assms [of 1] assms [of 2] assms [of 3]
  by (simp add: load_int_def)

lemma store_int_ok:
  assumes "\<And>k. 0 \<le> k \<Longrightarrow> k < 4 \<Longrightarrow> can_write (prot m (a + k))"
  shows "store_int a v m = m\<lparr>mem := write_bytes (mem m) a (int_bytes v)\<rparr>"
  unfolding store_int_def
proof (rule store_bytes_ok)
  fix i assume "i < length (int_bytes v)"
  then have "0 \<le> int i" "int i < 4" by (simp_all add: length_int_bytes)
  then show "can_write (prot m (a + int i))" by (rule assms)
qed

lemma store_bytes_prot: "prot (store_bytes a bs m) = prot m"
  by (simp add: store_bytes_def split: option.splits)

lemma exec_op_prot: "prot (core (exec_op op d v c)) = prot (core c)"
  by (cases op)
     (auto simp: mismatch_def store_int_def store_bytes_prot
           split: sum.splits list.splits vval.splits)

lemma exec_op_pc: "exec_op op d v (c\<lparr>pc := y\<rparr>) = (exec_op op d v c)\<lparr>pc := y\<rparr>"
  by (cases op)
     (auto simp: mismatch_def split: sum.splits list.splits vval.splits)

lemma sem_call_pc: "sem_call l x (c\<lparr>pc := y\<rparr>) = (sem_call l x c)\<lparr>pc := y\<rparr>"
  by (simp add: sem_call_def exec_op_pc)

lemma fold_sem_call_pc: "fold (sem_call l) cs (c\<lparr>pc := y\<rparr>) = (fold (sem_call l) cs c)\<lparr>pc := y\<rparr>"
  by (induction cs arbitrary: c) (simp_all add: sem_call_pc)

lemma exec_snippet_faulted: "fault (core c) \<noteq> None \<Longrightarrow> exec_snippet lib i c = c"
  by (cases i) (auto simp: exec_snippet_def)

lemma fold_exec_snippet_faulted:
  "fault (core c) \<noteq> None \<Longrightarrow> fold (exec_snippet lib) is c = c"
  by (induction "is" arbitrary: c) (simp_all add: exec_snippet_faulted)

lemma sem_call_faulted: "fault (core c) \<noteq> None \<Longrightarrow> sem_call l x c = c"
  by (auto simp: sem_call_def)

lemma fold_sem_call_faulted: "fault (core c) \<noteq> None \<Longrightarrow> fold (sem_call l) cs c = c"
  by (induction cs arbitrary: c) (simp_all add: sem_call_faulted)

lemma fold_exec_layout:
  assumes "pc c = p"
    and "\<And>x. p \<le> x \<Longrightarrow> x \<le> p + int (total_length lib cs) \<Longrightarrow> can_execute (prot (core c) x)"
  shows "\<exists>q. fold (exec_snippet lib) (layout lib l p cs) c = (fold (sem_call l) cs c)\<lparr>pc := q\<rparr>
           \<and> (fault (core (fold (sem_call l) cs c)) = None \<longrightarrow> q = p + int (total_length lib cs))"
  using assms
proof (induction cs arbitrary: c p)
  case Nil
  then show ?case by (intro exI [of _ "pc c"]) (simp add: total_length_Nil)
next
  case (Cons x cs)
  obtain s a where x: "x = (s, a)" by (cases x)
  show ?case
  proof (cases "fault (core c) = None")
    case False
    have a: "fold (exec_snippet lib) (layout lib l p (x # cs)) c = c"
      using False by (rule fold_exec_snippet_faulted)
    have b: "fold (sem_call l) (x # cs) c = c"
      using False by (rule fold_sem_call_faulted)
    show ?thesis
    proof (intro exI [of _ "pc c"] conjI impI)
      show "fold (exec_snippet lib) (layout lib l p (x # cs)) c
              = (fold (sem_call l) (x # cs) c)\<lparr>pc := pc c\<rparr>"
        unfolding a b by simp
      assume "fault (core (fold (sem_call l) (x # cs) c)) = None"
      then have "fault (core c) = None" unfolding b .
      with False show "pc c = p + int (total_length lib (x # cs))" by blast
    qed
  next
    case True
    define c1' where "c1' = exec_op (snippet_op s) (snippet_depth s) (arg_value l a) c"
    define p1 where "p1 = p + int (snippet_length lib s)"
    have ex0: "can_execute (prot (core c) p)"
      using Cons.prems(2) [of p] by simp
    have e1: "exec_snippet lib (p, s, arg_value l a) c = c1'\<lparr>pc := p1\<rparr>"
      using True Cons.prems(1) ex0 by (simp add: exec_snippet_def c1'_def p1_def)
    have s1: "sem_call l x c = c1'"
      using True by (simp add: sem_call_def x c1'_def)
    have pr: "prot (core (c1'\<lparr>pc := p1\<rparr>)) = prot (core c)"
      by (simp add: c1'_def exec_op_prot)
    have "\<exists>q. fold (exec_snippet lib) (layout lib l p1 cs) (c1'\<lparr>pc := p1\<rparr>)
                 = (fold (sem_call l) cs (c1'\<lparr>pc := p1\<rparr>))\<lparr>pc := q\<rparr>
           \<and> (fault (core (fold (sem_call l) cs (c1'\<lparr>pc := p1\<rparr>))) = None
                \<longrightarrow> q = p1 + int (total_length lib cs))"
    proof (rule Cons.IH)
      show "pc (c1'\<lparr>pc := p1\<rparr>) = p1" by simp
      fix y assume "p1 \<le> y" "y \<le> p1 + int (total_length lib cs)"
      then have "p \<le> y" "y \<le> p + int (total_length lib (x # cs))"
        by (simp_all add: p1_def x total_length_Cons)
      then show "can_execute (prot (core (c1'\<lparr>pc := p1\<rparr>)) y)"
        unfolding pr by (rule Cons.prems(2))
    qed
    then obtain q where q12:
      "fold (exec_snippet lib) (layout lib l p1 cs) (c1'\<lparr>pc := p1\<rparr>)
             = (fold (sem_call l) cs (c1'\<lparr>pc := p1\<rparr>))\<lparr>pc := q\<rparr>
       \<and> (fault (core (fold (sem_call l) cs (c1'\<lparr>pc := p1\<rparr>))) = None
                \<longrightarrow> q = p1 + int (total_length lib cs))" ..
    note q1 = q12 [THEN conjunct1] and q2 = q12 [THEN conjunct2]
    have r1: "fold (exec_snippet lib) (layout lib l p (x # cs)) c = (fold (sem_call l) (x # cs) c)\<lparr>pc := q\<rparr>"
      using q1 e1 s1 by (simp add: x p1_def fold_sem_call_pc)
    have r2: "fault (core (fold (sem_call l) (x # cs) c)) = None
                \<longrightarrow> q = p + int (total_length lib (x # cs))"
      using q2 s1 by (simp add: x p1_def fold_sem_call_pc total_length_Cons)
    show ?thesis
      by (intro exI [of _ q] conjI) (rule r1, rule r2)
  qed
qed

lemma invoke_demo:
  assumes f: "fault m = None"
    and st: "stitched m = layout lib l b stitch_calls"
    and cs: "code_seg m = b"
    and ex: "\<And>x. b \<le> x \<Longrightarrow> x \<le> b + int (total_length lib stitch_calls) \<Longrightarrow> can_execute (prot m x)"
    and rd: "\<And>x. l \<le> x \<Longrightarrow> x < l + 28 \<Longrightarrow> can_read (prot m x)"
    and wr: "\<And>x. l \<le> x \<Longrightarrow> x < l + 28 \<Longrightarrow> can_write (prot m x)"
    and vals: "mem_int (mem m) (l + 4) = 2" "mem_int (mem m) (l + 8) = 3"
      "mem_int (mem m) (l + 12) = 4" "mem_int (mem m) (l + 20) = 6" "mem_int (mem m) (l + 24) = 7"
    and ret: "mem m (b + int (total_length lib stitch_calls)) = 0xc3"
    and below: "b + int (total_length lib stitch_calls) < l"
  shows "invoke lib m =
           m\<lparr> invoked_with := Some (prot m b), mem := write_bytes (mem m) l (int_bytes 329) \<rparr>"
proof -
  define m0 where "m0 = m\<lparr>invoked_with := Some (prot m b)\<rparr>"
  define m1 where "m1 = m0\<lparr>mem := write_bytes (mem m) l (int_bytes 329)\<rparr>"
  define c0 where "c0 = \<lparr>pc = b, vstack = [], core = m0\<rparr>"
  define T where "T = b + int (total_length lib stitch_calls)"
  have f0: "fault m0 = None" using f by (simp add: m0_def)
  have ld: "load_int m0 (l + k) = Inr (mem_int (mem m) (l + k))" if "0 \<le> k" "k + 4 \<le> 28" for k
  proof -
    have "load_int m0 (l + k) = Inr (mem_int (mem m0) (l + k))"
      by (rule load_int_ok) (use that in \<open>simp add: m0_def rd\<close>)
    then show ?thesis by (simp add: m0_def)
  qed
  have st0: "store_int l 329 m0 = m1"
  proof -
    have "store_int l 329 m0 = m0\<lparr>mem := write_bytes (mem m0) l (int_bytes 329)\<rparr>"
      by (rule store_int_ok) (simp add: m0_def wr)
    then show ?thesis by (simp add: m0_def m1_def)
  qed
  have sem: "fold (sem_call l) stitch_calls c0 = c0\<lparr>core := m1\<rparr>"
    using f0 ld [of 4] ld [of 8] ld [of 12] ld [of 20] ld [of 24] st0
    by (simp add: stitch_calls_def snippet_defs sem_call_def c0_def BYTE_OFFSET_simps vals)
  have "\<exists>q. fold (exec_snippet lib) (layout lib l b stitch_calls) c0
               = (fold (sem_call l) stitch_calls c0)\<lparr>pc := q\<rparr>
           \<and> (fault (core (fold (sem_call l) stitch_calls c0)) = None
                \<longrightarrow> q = b + int (total_length lib stitch_calls))"
  proof (rule fold_exec_layout)
    show "pc c0 = b" by (simp add: c0_def)
    fix x assume "b \<le> x" "x \<le> b + int (total_length lib stitch_calls)"
    then have "can_execute (prot m x)" by (rule ex)
    then show "can_execute (prot (core c0) x)" by (simp add: c0_def m0_def)
  qed
  then obtain q where q12:
    "fold (exec_snippet lib) (layout lib l b stitch_calls) c0
               = (fold (sem_call l) stitch_calls c0)\<lparr>pc := q\<rparr>
           \<and> (fault (core (fold (sem_call l) stitch_calls c0)) = None
                \<longrightarrow> q = b + int (total_length lib stitch_calls))" ..
  have f1: "fault m1 = None" using f0 by (simp add: m1_def)
  have q: "q = T" using q12 [THEN conjunct2] f1 by (simp add: sem T_def)
  have "fold (exec_snippet lib) (stitched m) c0 = (c0\<lparr>core := m1\<rparr>)\<lparr>pc := T\<rparr>"
    using q12 [THEN conjunct1] unfolding st sem q .
  then have run: "fold (exec_snippet lib) (stitched m) c0 = \<lparr>pc = T, vstack = [], core = m1\<rparr>"
    by (simp add: c0_def)
  have x1: "can_execute (prot m1 T)"
    using ex [of T] by (simp add: m1_def m0_def T_def)
  have "mem m1 T = mem m T"
    using below by (simp add: m1_def m0_def T_def write_bytes_outside)
  then have x2: "mem m1 T = 0xc3" using ret by (simp add: T_def)
  have "invoke lib m = exec_ret (fold (exec_snippet lib) (stitched m) c0)"
    by (simp add: invoke_def cs c0_def m0_def)
  also have "\<dots> = exec_ret \<lparr>pc = T, vstack = [], core = m1\<rparr>"
    by (simp only: run)
  also have "\<dots> = m1"
    using f1 x1 x2 by (simp add: exec_ret_def)
  finally show ?thesis by (simp add: m1_def m0_def)
qed

lemma VirtualProtect_eq: "VirtualProtect os a sz p m = m\<lparr>prot := protect_map os a sz p (prot m)\<rparr>"
  by (simp add: VirtualProtect_def protect_map_def)

lemma step_append_ret:
  assumes "fault m = None" and "can_write (prot m (code_p m))"
  shows "step e append_ret m =
           m\<lparr> trace := trace m @ [e], mem := write_bytes (mem m) (code_p m) [0xc3],
              code_p := code_p m + 1 \<rparr>"
proof -
  have "store_bytes (code_p m) [0xc3] (m\<lparr>trace := trace m @ [e]\<rparr>)
          = (m\<lparr>trace := trace m @ [e]\<rparr>)
              \<lparr>mem := write_bytes (mem (m\<lparr>trace := trace m @ [e]\<rparr>)) (code_p m) [0xc3]\<rparr>"
    by (rule store_bytes_ok) (simp add: assms(2))
  then show ?thesis
    using assms(1) by (simp add: step_def append_ret_def Let_def)
qed

lemma final_prot_code:
  "b \<le> x \<Longrightarrow> x < b + 65536 \<Longrightarrow> can_execute (final_prot os b x)"
  by (simp add: final_prot_def protect_map_def region_apply)

lemma final_prot_locals:
  "b + 65536 \<le> x \<Longrightarrow> x < b + 131072 \<Longrightarrow>
     can_read (final_prot os b x) \<and> can_write (final_prot os b x)"
  by (simp add: final_prot_def protect_map_def region_apply)


lemma main_run:
  assumes a: "alloc_result os \<noteq> 0" and fits: "total_length lib stitch_calls < 65536"
  shows "main os lib =
    \<lparr> mem = final_mem lib (alloc_result os),
      prot = final_prot os (alloc_result os),
      locals_and_code = alloc_result os, code_seg = alloc_result os,
      locals = alloc_result os + 64 * 1024,
      code_p = alloc_result os + int (total_length lib stitch_calls) + 1,
      stitched = layout lib (alloc_result os + 64 * 1024) (alloc_result os) stitch_calls,
      invoked_with = Some (final_prot os (alloc_result os) (alloc_result os)),
      trace = main_events, fault = None \<rparr>"
proof -
  define b where "b = alloc_result os"
  define T where "T = int (total_length lib stitch_calls)"
  have T: "0 \<le> T" "T < 65536" using fits by (simp_all add: T_def)
  define m2 where "m2 =
    \<lparr> mem = init_mem b,
      prot = region b (128 * 1024) PAGE_EXECUTE_READWRITE (\<lambda>a. PAGE_NOACCESS),
      locals_and_code = b, code_seg = b, locals = b + 64 * 1024, code_p = b,
      stitched = [], invoked_with = None,
      trace = EvVirtualAlloc # map fst init_locals, fault = None \<rparr>"
  have r2: "run ((EvVirtualAlloc, reserve os) # init_locals) initial_machine = m2"
    using run_init [OF a] by (simp add: m2_def b_def)
  define m3 where "m3 = m2\<lparr> mem := stitch_mem lib (b + 64 * 1024) b stitch_calls (init_mem b),
              code_p := b + T,
              stitched := layout lib (b + 64 * 1024) b stitch_calls,
              trace := trace m2 @ map (\<lambda>c. EvStitch (fst c)) stitch_calls \<rparr>"
  have r3: "run (stitch lib stitch_calls) m2 = m3"
  proof -
    have "run (stitch lib stitch_calls) m2 =
           m2\<lparr> mem := stitch_mem lib (locals m2) (code_p m2) stitch_calls (mem m2),
              code_p := code_p m2 + int (total_length lib stitch_calls),
              stitched := stitched m2 @ layout lib (locals m2) (code_p m2) stitch_calls,
              trace := trace m2 @ map (\<lambda>c. EvStitch (fst c)) stitch_calls \<rparr>"
    proof (rule run_stitch)
      show "fault m2 = None" by (simp add: m2_def)
      fix x assume "code_p m2 \<le> x" "x < code_p m2 + int (total_length lib stitch_calls)"
      then have "b \<le> x" "x < b + 131072" using T by (simp_all add: m2_def T_def)
      then show "can_write (prot m2 x)" by (simp add: m2_def region_apply)
    qed
    then show ?thesis by (simp add: m3_def m2_def T_def)
  qed
  define m4 where "m4 = m3\<lparr> trace := trace m3 @ [EvAppendRet],
              mem := write_bytes (mem m3) (b + T) [0xc3], code_p := b + T + 1 \<rparr>"
  have r4: "step EvAppendRet append_ret m3 = m4"
  proof -
    have "step EvAppendRet append_ret m3 =
           m3\<lparr> trace := trace m3 @ [EvAppendRet], mem := write_bytes (mem m3) (code_p m3) [0xc3],
              code_p := code_p m3 + 1 \<rparr>"
    proof (rule step_append_ret)
      show "fault m3 = None" by (simp add: m3_def m2_def)
      show "can_write (prot m3 (code_p m3))"
        using T by (simp add: m3_def m2_def region_apply)
    qed
    then show ?thesis by (simp add: m4_def m3_def m2_def)
  qed
  define m5 where "m5 = m4\<lparr> trace := trace m4 @ [EvProtectCode, EvProtectLocals, EvInvoke],
              prot := final_prot os b \<rparr>"
  have f4: "fault m4 = None" by (simp add: m4_def m3_def m2_def)
  have r5: "run (finalize os lib) m3 = invoke lib m5"
    using r4 f4
    by (simp add: finalize_def step_def VirtualProtect_eq m5_def final_prot_def)
       (simp add: m4_def m3_def m2_def)
  have r6: "invoke lib m5 =
     m5\<lparr> invoked_with := Some (prot m5 b),
         mem := write_bytes (mem m5) (b + 64 * 1024) (int_bytes 329) \<rparr>"
  proof (rule invoke_demo)
    show "fault m5 = None" by (simp add: m5_def m4_def m3_def m2_def)
    show "stitched m5 = layout lib (b + 64 * 1024) b stitch_calls"
      by (simp add: m5_def m4_def m3_def m2_def)
    show "code_seg m5 = b" by (simp add: m5_def m4_def m3_def m2_def)
    show "b + int (total_length lib stitch_calls) < b + 64 * 1024" using T by (simp add: T_def)
    show "mem m5 (b + int (total_length lib stitch_calls)) = 0xc3"
      by (simp add: m5_def m4_def m3_def m2_def T_def)
  next
    fix x assume "b \<le> x" "x \<le> b + int (total_length lib stitch_calls)"
    then have "b \<le> x" "x < b + 65536" using T by (simp_all add: T_def)
    then show "can_execute (prot m5 x)" by (simp add: m5_def final_prot_code)
  next
    fix x assume "b + 64 * 1024 \<le> x" "x < b + 64 * 1024 + 28"
    then have x: "b + 65536 \<le> x" "x < b + 131072" by simp_all
    from final_prot_locals [OF x] show "can_read (prot m5 x)" by (simp add: m5_def)
  next
    fix x assume "b + 64 * 1024 \<le> x" "x < b + 64 * 1024 + 28"
    then have x: "b + 65536 \<le> x" "x < b + 131072" by simp_all
    from final_prot_locals [OF x] show "can_write (prot m5 x)" by (simp add: m5_def)
  next
    have m: "mem_int (mem m5) (b + 65536 + k) = mem_int (init_mem b) (b + 65536 + k)" if "0 \<le> k" for k
    proof -
      have "mem m5 = write_bytes (stitch_mem lib (b + 64 * 1024) b stitch_calls (init_mem b))
                       (b + T) [0xc3]"
        by (simp add: m5_def m4_def m3_def m2_def del: write_bytes.simps)
      moreover have "mem_int (write_bytes (stitch_mem lib (b + 64 * 1024) b stitch_calls (init_mem b))
                       (b + T) [0xc3]) (b + 65536 + k)
              = mem_int (stitch_mem lib (b + 64 * 1024) b stitch_calls (init_mem b)) (b + 65536 + k)"
        by (rule mem_int_write_other) (use T that in simp)
      ultimately have "mem_int (mem m5) (b + 65536 + k)
              = mem_int (stitch_mem lib (b + 64 * 1024) b stitch_calls (init_mem b)) (b + 65536 + k)"
        by (simp only:)
      also have "\<dots> = mem_int (init_mem b) (b + 65536 + k)"
        using T that by (intro mem_int_stitch_mem) (simp add: T_def)
      finally show ?thesis .
    qed
    show "mem_int (mem m5) (b + 64 * 1024 + 4) = 2" using m [of 4] mem_int_init_mem [of b] by simp
    show "mem_int (mem m5) (b + 64 * 1024 + 8) = 3" using m [of 8] mem_int_init_mem [of b] by simp
    show "mem_int (mem m5) (b + 64 * 1024 + 12) = 4" using m [of 12] mem_int_init_mem [of b] by simp
    show "mem_int (mem m5) (b + 64 * 1024 + 20) = 6" using m [of 20] mem_int_init_mem [of b] by simp
    show "mem_int (mem m5) (b + 64 * 1024 + 24) = 7" using m [of 24] mem_int_init_mem [of b] by simp
  qed
  have "main os lib = run (finalize os lib) (run (stitch lib stitch_calls)
          (run ((EvVirtualAlloc, reserve os) # init_locals) initial_machine))"
    by (simp add: main_def program_def run_append)
  also have "\<dots> = invoke lib m5" by (simp only: r2 r3 r5)
  also note r6
  finally show ?thesis
    by (simp add: m5_def m4_def m3_def m2_def final_mem_def main_events_def T_def b_def)
qed

lemma read_bytes_append:
  "read_bytes f a (n + k) = read_bytes f a n @ read_bytes f (a + int n) k"
  by (induction n arbitrary: a) (simp_all add: algebra_simps)

lemma read_bytes_cong:
  "(\<And>x. a \<le> x \<Longrightarrow> x < a + int n \<Longrightarrow> f x = g x) \<Longrightarrow> read_bytes f a n = read_bytes g a n"
proof (induction n arbitrary: a)
  case 0
  show ?case by simp
next
  case (Suc n)
  have "f a = g a" using Suc.prems [of a] by simp
  moreover have "read_bytes f (a + 1) n = read_bytes g (a + 1) n"
    by (rule Suc.IH) (use Suc.prems in simp)
  ultimately show ?case by simp
qed

lemma read_bytes_write_bytes: "read_bytes (write_bytes f a bs) a (length bs) = bs"
proof (induction bs arbitrary: f a)
  case Nil
  show ?case by simp
next
  case (Cons b bs)
  have "write_bytes (f(a := b)) (a + 1) bs a = (f(a := b)) a"
    by (rule write_bytes_outside) simp
  then have 1: "write_bytes (f(a := b)) (a + 1) bs a = b" by simp
  have 2: "read_bytes (write_bytes (f(a := b)) (a + 1) bs) (a + 1) (length bs) = bs"
    by (rule Cons.IH)
  show ?case by (simp add: 1 2)
qed

lemma read_bytes_stitch_mem:
  "read_bytes (stitch_mem lib l p cs f) p (total_length lib cs)
     = concat (map (snippet_bytes lib l) cs)"
proof (induction cs arbitrary: p f)
  case Nil
  show ?case by (simp add: total_length_Nil)
next
  case (Cons c cs)
  obtain s a where c: "c = (s, a)" by (cases c)
  define bs where "bs = patch (lib s) (arg_value l a)"
  define n where "n = snippet_length lib s"
  have len: "length bs = n" by (simp add: bs_def n_def length_patch snippet_length_def)
  define g where "g = stitch_mem lib l (p + int n) cs (write_bytes f p bs)"
  have "read_bytes g p n = read_bytes (write_bytes f p bs) p n"
    by (rule read_bytes_cong) (simp add: g_def stitch_mem_outside)
  then have 1: "read_bytes g p n = bs"
    using read_bytes_write_bytes [of f p bs] by (simp add: len)
  have 2: "read_bytes g (p + int n) (total_length lib cs) = concat (map (snippet_bytes lib l) cs)"
    unfolding g_def by (rule Cons.IH)
  have "read_bytes (stitch_mem lib l p (c # cs) f) p (total_length lib (c # cs))
          = read_bytes g p (n + total_length lib cs)"
    by (simp add: c g_def bs_def n_def total_length_Cons)
  also have "\<dots> = bs @ concat (map (snippet_bytes lib l) cs)"
    by (simp add: read_bytes_append 1 2)
  finally have "read_bytes (stitch_mem lib l p (c # cs) f) p (total_length lib (c # cs))
                  = bs @ concat (map (snippet_bytes lib l) cs)" .
  moreover have "snippet_bytes lib l c = bs" by (simp add: snippet_bytes_def c bs_def)
  ultimately show ?case by simp
qed

lemma first_bad_Some_fault:
  "first_bad (\<lambda>x. can_write (prot m x)) a bs = Some x \<Longrightarrow> fault (store_bytes a bs m) \<noteq> None"
  by (simp add: store_bytes_def)

lemma call_snippet_cases:
  "fault (call_snippet lib s a m) = None \<Longrightarrow>
     call_snippet lib s a m =
       m\<lparr> mem := write_bytes (mem m) (code_p m) (patch (lib s) (arg_value (locals m) a)),
          code_p := code_p m + int (snippet_length lib s),
          stitched := stitched m @ [(code_p m, s, arg_value (locals m) a)] \<rparr>"
  by (auto simp: call_snippet_def Let_def store_bytes_def length_patch snippet_length_def
      split: option.splits if_splits)

lemma run_stitch_nofault:
  assumes "fault (run (stitch lib cs) m) = None"
  shows "run (stitch lib cs) m =
           m\<lparr> mem := stitch_mem lib (locals m) (code_p m) cs (mem m),
              code_p := code_p m + int (total_length lib cs),
              stitched := stitched m @ layout lib (locals m) (code_p m) cs,
              trace := trace m @ map (\<lambda>c. EvStitch (fst c)) cs \<rparr>"
  using assms
proof (induction cs arbitrary: m)
  case Nil
  show ?case by (simp add: stitch_def total_length_Nil)
next
  case (Cons c cs)
  obtain s a where c: "c = (s, a)" by (cases c)
  define m0 where "m0 = m\<lparr>trace := trace m @ [EvStitch s]\<rparr>"
  define m1 where "m1 = step (EvStitch s) (call_snippet lib s a) m"
  have r: "run (stitch lib (c # cs)) m = run (stitch lib cs) m1"
    by (simp add: stitch_def c m1_def)
  have f1: "fault m1 = None"
  proof (rule ccontr)
    assume "fault m1 \<noteq> None"
    then have "run (stitch lib cs) m1 = m1" by (rule run_faulted)
    with r Cons.prems \<open>fault m1 \<noteq> None\<close> show False by simp
  qed
  have fm: "fault m = None"
  proof (rule ccontr)
    assume "fault m \<noteq> None"
    then have "m1 = m" unfolding m1_def by (rule step_faulted)
    with f1 \<open>fault m \<noteq> None\<close> show False by simp
  qed
  have m1: "m1 = call_snippet lib s a m0"
    using fm by (simp add: m1_def step_def m0_def)
  have "m1 = m0\<lparr> mem := write_bytes (mem m0) (code_p m0) (patch (lib s) (arg_value (locals m0) a)),
          code_p := code_p m0 + int (snippet_length lib s),
          stitched := stitched m0 @ [(code_p m0, s, arg_value (locals m0) a)] \<rparr>"
    unfolding m1 by (rule call_snippet_cases) (use f1 m1 in simp)
  then have m1': "m1 = m\<lparr> trace := trace m @ [EvStitch s],
          mem := write_bytes (mem m) (code_p m) (patch (lib s) (arg_value (locals m) a)),
          code_p := code_p m + int (snippet_length lib s),
          stitched := stitched m @ [(code_p m, s, arg_value (locals m) a)] \<rparr>"
    by (simp add: m0_def)
  have "run (stitch lib cs) m1 =
           m1\<lparr> mem := stitch_mem lib (locals m1) (code_p m1) cs (mem m1),
              code_p := code_p m1 + int (total_length lib cs),
              stitched := stitched m1 @ layout lib (locals m1) (code_p m1) cs,
              trace := trace m1 @ map (\<lambda>c. EvStitch (fst c)) cs \<rparr>"
    by (rule Cons.IH) (use r Cons.prems in simp)
  also have "\<dots> = m\<lparr> mem := stitch_mem lib (locals m) (code_p m) (c # cs) (mem m),
              code_p := code_p m + int (total_length lib (c # cs)),
              stitched := stitched m @ layout lib (locals m) (code_p m) (c # cs),
              trace := trace m @ map (\<lambda>c. EvStitch (fst c)) (c # cs) \<rparr>"
    by (simp add: m1' c total_length_Cons algebra_simps)
  finally show ?case using r by simp
qed

section \<open>The run of \<open>main\<close>: the claims\<close>

lemma total_length_tiny_library: "total_length tiny_library stitch_calls = 13"
  by (simp add: total_length_def stitch_calls_def snippet_length_def tiny_library_def)









lemma total_length_sum:
  "total_length lib cs = sum_list (map (\<lambda>c. snippet_length lib (fst c)) cs)"
  by (simp add: total_length_def case_prod_unfold)

lemma mem_final_ret:
  assumes "total_length lib stitch_calls < 65536"
  shows "final_mem lib b (b + int (total_length lib stitch_calls)) = 0xc3"
proof -
  have "final_mem lib b (b + int (total_length lib stitch_calls))
          = write_bytes (stitch_mem lib (b + 64 * 1024) b stitch_calls (init_mem b))
              (b + int (total_length lib stitch_calls)) [0xc3] (b + int (total_length lib stitch_calls))"
    unfolding final_mem_def
    by (rule write_bytes_outside) (use assms in simp)
  then show ?thesis by simp
qed

text \<open>
  C7. The stitcher writes exactly the snippets. Whenever a sequence of snippet calls
  runs without a fault, the write pointer ends at its start plus the sum of the lengths
  of the snippets called, in the order of the calls; the bytes between the two pointers
  are the patched bytes of the snippets one after the other, with nothing between them;
  no byte outside is changed; and the steps taken are those calls alone. In \<open>main\<close>
  (reservation successful, code fitting below the locals) the byte \<open>0xc3\<close> then stands
  at the pointer the stitcher left, and the final pointer is one further: the \<open>ret\<close>
  is written after the stitching and is not part of it.
\<close>

theorem stitcher_writes_exactly_the_snippets:
  assumes "fault (run (stitch lib cs) m) = None"
  shows "code_p (run (stitch lib cs) m) = code_p m + int (total_length lib cs)
    \<and> total_length lib cs = sum_list (map (\<lambda>c. snippet_length lib (fst c)) cs)
    \<and> read_bytes (mem (run (stitch lib cs) m)) (code_p m) (total_length lib cs)
        = concat (map (snippet_bytes lib (locals m)) cs)
    \<and> (\<forall>x. x < code_p m \<or> code_p m + int (total_length lib cs) \<le> x
          \<longrightarrow> mem (run (stitch lib cs) m) x = mem m x)
    \<and> trace (run (stitch lib cs) m) = trace m @ map (\<lambda>c. EvStitch (fst c)) cs
    \<and> (alloc_result os \<noteq> 0 \<longrightarrow> total_length lib stitch_calls < 65536 \<longrightarrow>
          code_p (main os lib) = code_seg (main os lib) + int (total_length lib stitch_calls) + 1
          \<and> mem (main os lib) (code_seg (main os lib) + int (total_length lib stitch_calls)) = 0xc3)"
proof -
  note r = run_stitch_nofault [OF assms]
  have 1: "code_p (run (stitch lib cs) m) = code_p m + int (total_length lib cs)"
    by (simp add: r)
  have 2: "mem (run (stitch lib cs) m) = stitch_mem lib (locals m) (code_p m) cs (mem m)"
    by (simp add: r)
  have 3: "read_bytes (mem (run (stitch lib cs) m)) (code_p m) (total_length lib cs)
        = concat (map (snippet_bytes lib (locals m)) cs)"
    unfolding 2 by (rule read_bytes_stitch_mem)
  have 4: "\<forall>x. x < code_p m \<or> code_p m + int (total_length lib cs) \<le> x
          \<longrightarrow> mem (run (stitch lib cs) m) x = mem m x"
    unfolding 2 by (simp add: stitch_mem_outside)
  have 5: "trace (run (stitch lib cs) m) = trace m @ map (\<lambda>c. EvStitch (fst c)) cs"
    by (simp add: r)
  have 6: "code_p (main os lib) = code_seg (main os lib) + int (total_length lib stitch_calls) + 1
          \<and> mem (main os lib) (code_seg (main os lib) + int (total_length lib stitch_calls)) = 0xc3"
    if "alloc_result os \<noteq> 0" "total_length lib stitch_calls < 65536"
    using main_run [OF that] mem_final_ret [OF that(2)] by simp
  show ?thesis
    using 1 total_length_sum [of lib cs] 3 4 5 6 by (intro conjI impI) simp_all
qed

theorem stitcher_writes_exactly_the_snippets_witness:
  "fault (run (stitch tiny_library stitch_calls)
            (run ((EvVirtualAlloc, reserve service_ok) # init_locals) initial_machine)) = None
   \<and> alloc_result service_ok \<noteq> 0
   \<and> total_length tiny_library stitch_calls < 65536
   \<and> code_p (run (stitch tiny_library stitch_calls)
               (run ((EvVirtualAlloc, reserve service_ok) # init_locals) initial_machine))
       = code_p (run ((EvVirtualAlloc, reserve service_ok) # init_locals) initial_machine) + 13
   \<and> code_p (main service_ok tiny_library) = code_seg (main service_ok tiny_library) + 13 + 1"
proof -
  define m where "m = run ((EvVirtualAlloc, reserve service_ok) # init_locals) initial_machine"
  have h1: "alloc_result service_ok \<noteq> 0"
    and h2: "total_length tiny_library stitch_calls < 65536"
    by (simp_all add: service_ok_def total_length_tiny_library)
  have m: "fault m = None" "code_p m = alloc_result service_ok"
    "prot m = region (alloc_result service_ok) (128 * 1024) PAGE_EXECUTE_READWRITE (\<lambda>a. PAGE_NOACCESS)"
    unfolding m_def run_init [OF h1] by simp_all
  have "run (stitch tiny_library stitch_calls) m =
           m\<lparr> mem := stitch_mem tiny_library (locals m) (code_p m) stitch_calls (mem m),
              code_p := code_p m + int (total_length tiny_library stitch_calls),
              stitched := stitched m @ layout tiny_library (locals m) (code_p m) stitch_calls,
              trace := trace m @ map (\<lambda>c. EvStitch (fst c)) stitch_calls \<rparr>"
  proof (rule run_stitch)
    show "fault m = None" by (rule m(1))
    fix x assume "code_p m \<le> x" "x < code_p m + int (total_length tiny_library stitch_calls)"
    then show "can_write (prot m x)"
      by (simp add: m total_length_tiny_library region_apply)
  qed
  then have f: "fault (run (stitch tiny_library stitch_calls) m) = None"
    by (simp add: m(1))
  note r = stitcher_writes_exactly_the_snippets [OF f, of service_ok]
  have a: "code_p (run (stitch tiny_library stitch_calls) m) = code_p m + 13"
    using r [THEN conjunct1] by (simp add: total_length_tiny_library)
  have b: "code_p (main service_ok tiny_library) = code_seg (main service_ok tiny_library) + 13 + 1"
    using r h1 h2 by (simp add: total_length_tiny_library)
  show ?thesis
    unfolding m_def [symmetric]
    by (intro conjI) (rule f, rule h1, rule h2, rule a, rule b)
qed






lemma emitted_run:
  assumes a: "alloc_result os \<noteq> 0" and fits: "total_length lib stitch_calls < 131072"
  shows "emitted os lib =
    \<lparr> mem = emitted_mem lib (alloc_result os),
      prot = region (alloc_result os) (128 * 1024) PAGE_EXECUTE_READWRITE (\<lambda>a. PAGE_NOACCESS),
      locals_and_code = alloc_result os, code_seg = alloc_result os,
      locals = alloc_result os + 64 * 1024,
      code_p = alloc_result os + int (total_length lib stitch_calls) + 1,
      stitched = layout lib (alloc_result os + 64 * 1024) (alloc_result os) stitch_calls,
      invoked_with = None,
      trace = EvVirtualAlloc # map fst init_locals @ map (\<lambda>c. EvStitch (fst c)) stitch_calls
                @ [EvAppendRet],
      fault = None \<rparr>"
proof -
  define b where "b = alloc_result os"
  define T where "T = int (total_length lib stitch_calls)"
  have T: "0 \<le> T" "T < 131072" using fits by (simp_all add: T_def)
  define m2 where "m2 =
    \<lparr> mem = init_mem b,
      prot = region b (128 * 1024) PAGE_EXECUTE_READWRITE (\<lambda>a. PAGE_NOACCESS),
      locals_and_code = b, code_seg = b, locals = b + 64 * 1024, code_p = b,
      stitched = [], invoked_with = None,
      trace = EvVirtualAlloc # map fst init_locals, fault = None \<rparr>"
  have r2: "run ((EvVirtualAlloc, reserve os) # init_locals) initial_machine = m2"
    using run_init [OF a] by (simp add: m2_def b_def)
  define m3 where "m3 = m2\<lparr> mem := stitch_mem lib (b + 64 * 1024) b stitch_calls (init_mem b),
              code_p := b + T,
              stitched := layout lib (b + 64 * 1024) b stitch_calls,
              trace := trace m2 @ map (\<lambda>c. EvStitch (fst c)) stitch_calls \<rparr>"
  have r3: "run (stitch lib stitch_calls) m2 = m3"
  proof -
    have "run (stitch lib stitch_calls) m2 =
           m2\<lparr> mem := stitch_mem lib (locals m2) (code_p m2) stitch_calls (mem m2),
              code_p := code_p m2 + int (total_length lib stitch_calls),
              stitched := stitched m2 @ layout lib (locals m2) (code_p m2) stitch_calls,
              trace := trace m2 @ map (\<lambda>c. EvStitch (fst c)) stitch_calls \<rparr>"
    proof (rule run_stitch)
      show "fault m2 = None" by (simp add: m2_def)
      fix x assume "code_p m2 \<le> x" "x < code_p m2 + int (total_length lib stitch_calls)"
      then have "b \<le> x" "x < b + 131072" using T by (simp_all add: m2_def T_def)
      then show "can_write (prot m2 x)" by (simp add: m2_def region_apply)
    qed
    then show ?thesis by (simp add: m3_def m2_def T_def)
  qed
  define m4 where "m4 = m3\<lparr> trace := trace m3 @ [EvAppendRet],
              mem := write_bytes (mem m3) (b + T) [0xc3], code_p := b + T + 1 \<rparr>"
  have r4: "step EvAppendRet append_ret m3 = m4"
  proof -
    have "step EvAppendRet append_ret m3 =
           m3\<lparr> trace := trace m3 @ [EvAppendRet], mem := write_bytes (mem m3) (code_p m3) [0xc3],
              code_p := code_p m3 + 1 \<rparr>"
    proof (rule step_append_ret)
      show "fault m3 = None" by (simp add: m3_def m2_def)
      show "can_write (prot m3 (code_p m3))"
        using T by (simp add: m3_def m2_def region_apply)
    qed
    then show ?thesis by (simp add: m4_def m3_def m2_def)
  qed
  have "emitted os lib = run [(EvAppendRet, append_ret)] (run (stitch lib stitch_calls)
          (run ((EvVirtualAlloc, reserve os) # init_locals) initial_machine))"
    unfolding emitted_def by (simp only: run_append append_Cons [symmetric])
  also have "\<dots> = m4" by (simp only: r2 r3) (simp add: r4)
  finally show ?thesis
    by (simp add: m4_def m3_def m2_def emitted_mem_def T_def b_def del: write_bytes.simps)
qed

lemma read_bytes_emitted_mem:
  "read_bytes (emitted_mem lib b) b (total_length lib stitch_calls + 1)
     = emitted_bytes lib (b + 64 * 1024)"
proof -
  define T where "T = total_length lib stitch_calls"
  define g where "g = stitch_mem lib (b + 64 * 1024) b stitch_calls (init_mem b)"
  have e: "emitted_mem lib b = write_bytes g (b + int T) [0xc3]"
    by (simp only: emitted_mem_def g_def T_def)
  have 1: "read_bytes (write_bytes g (b + int T) [0xc3]) b T = read_bytes g b T"
    by (rule read_bytes_cong) (rule write_bytes_outside, simp)
  have 2: "read_bytes g b T = concat (map (snippet_bytes lib (b + 64 * 1024)) stitch_calls)"
    unfolding g_def T_def by (rule read_bytes_stitch_mem)
  have 3: "read_bytes (write_bytes g (b + int T) [0xc3]) (b + int T) (length [0xc3 :: 8 word])
             = [0xc3]"
    by (rule read_bytes_write_bytes)
  have "read_bytes (emitted_mem lib b) b (T + 1)
          = read_bytes (write_bytes g (b + int T) [0xc3]) b T
            @ read_bytes (write_bytes g (b + int T) [0xc3]) (b + int T) 1"
    unfolding e by (rule read_bytes_append)
  also have "\<dots> = concat (map (snippet_bytes lib (b + 64 * 1024)) stitch_calls) @ [0xc3]"
    using 1 2 3 by (simp del: write_bytes.simps read_bytes.simps)
  finally show ?thesis by (simp only: T_def emitted_bytes_def)
qed

lemma read_bytes_nth: "i < n \<Longrightarrow> read_bytes f a n ! i = f (a + int i)"
proof (induction n arbitrary: a i)
  case 0
  then show ?case by simp
next
  case (Suc n)
  show ?case
  proof (cases i)
    case 0
    then show ?thesis by simp
  next
    case (Suc j)
    with Suc.prems have "j < n" by simp
    from Suc.IH [OF this, of "a + 1"] Suc show ?thesis by (simp add: algebra_simps)
  qed
qed

lemma emitted_mem_outside:
  assumes "x < b \<or> b + int (total_length lib stitch_calls) + 1 \<le> x"
  shows "emitted_mem lib b x = init_mem b x"
proof -
  have "emitted_mem lib b x = stitch_mem lib (b + 64 * 1024) b stitch_calls (init_mem b) x"
    unfolding emitted_mem_def by (rule write_bytes_outside) (use assms in auto)
  also have "\<dots> = init_mem b x"
    by (rule stitch_mem_outside) (use assms in auto)
  finally show ?thesis .
qed

lemma mem_int_init_mem_a_e:
  "mem_int (init_mem b) (b + 65536) = 0x1111"
  "mem_int (init_mem b) (b + 65536 + 16) = 0"
  by (simp_all add: init_mem_def BYTE_OFFSET_simps mem_int_write_other mem_int_write_same
      length_int_bytes)

lemma read_local_emitted:
  assumes a: "alloc_result os \<noteq> 0" and fits: "total_length lib stitch_calls + 1 \<le> 65536"
    and k: "0 \<le> k" "k < 16384"
  shows "read_local (emitted os lib) k
           = Inr (mem_int (init_mem (alloc_result os)) (alloc_result os + 65536 + 4 * k))"
proof -
  define b where "b = alloc_result os"
  have f: "total_length lib stitch_calls < 131072" using fits by simp
  note r = emitted_run [OF a f]
  have m: "mem (emitted os lib) = emitted_mem lib b" "locals (emitted os lib) = b + 65536"
    "prot (emitted os lib) = region b (128 * 1024) PAGE_EXECUTE_READWRITE (\<lambda>a. PAGE_NOACCESS)"
    by (simp_all add: r b_def)
  have "load_int (emitted os lib) (b + 65536 + 4 * k)
          = Inr (mem_int (mem (emitted os lib)) (b + 65536 + 4 * k))"
  proof (rule load_int_ok)
    fix j :: int assume "0 \<le> j" "j < 4"
    with k show "can_read (prot (emitted os lib) (b + 65536 + 4 * k + j))"
      by (simp add: m region_apply)
  qed
  moreover have "mem_int (emitted_mem lib b) (b + 65536 + 4 * k)
                   = mem_int (init_mem b) (b + 65536 + 4 * k)"
  proof (rule mem_int_cong)
    fix j :: int assume "0 \<le> j" "j < 4"
    show "emitted_mem lib b (b + 65536 + 4 * k + j) = init_mem b (b + 65536 + 4 * k + j)"
      by (rule emitted_mem_outside) (use fits k \<open>0 \<le> j\<close> in simp)
  qed
  ultimately show ?thesis by (simp add: read_local_def m b_def)
qed

lemma total_length_bulky_library: "total_length bulky_library stitch_calls = 65546"
  by (simp add: total_length_def stitch_calls_def snippet_length_def bulky_library_def)

lemma emitted_bytes_bulky:
  assumes "i < 65546"
  shows "emitted_bytes bulky_library l ! i = 0x90"
proof -
  define xs where "xs = concat (map (snippet_bytes bulky_library l) stitch_calls)"
  have s: "\<forall>x \<in> set xs. x = 0x90"
    by (simp add: xs_def snippet_bytes_def patch_def bulky_library_def)
  have "length xs = total_length bulky_library stitch_calls"
    by (simp add: xs_def total_length_def snippet_bytes_def length_patch snippet_length_def
        length_concat case_prod_unfold comp_def)
  then have "i < length xs" using assms by (simp add: total_length_bulky_library)
  then have "xs ! i \<in> set xs" "(xs @ [0xc3]) ! i = xs ! i" by (simp_all add: nth_append)
  with s show ?thesis by (simp add: emitted_bytes_def xs_def [symmetric])
qed

lemma emitted_mem_bulky:
  assumes "0 \<le> k" "k < 65546"
  shows "emitted_mem bulky_library b (b + k) = 0x90"
proof -
  have "nat k < total_length bulky_library stitch_calls + 1"
    using assms by (simp add: total_length_bulky_library)
  from read_bytes_nth [OF this, of "emitted_mem bulky_library b" b]
  have "emitted_mem bulky_library b (b + int (nat k)) = emitted_bytes bulky_library (b + 64 * 1024) ! nat k"
    by (simp only: read_bytes_emitted_mem)
  also have "\<dots> = 0x90" by (rule emitted_bytes_bulky) (use assms in simp)
  finally show ?thesis using assms by simp
qed

lemma read_local_0_bulky: "read_local (emitted service_ok bulky_library) 0 = Inr 0x90909090"
proof -
  have a: "alloc_result service_ok \<noteq> 0" by (simp add: service_ok_def)
  have f: "total_length bulky_library stitch_calls < 131072" by (simp add: total_length_bulky_library)
  note r = emitted_run [OF a f]
  define b where "b = alloc_result service_ok"
  have m: "mem (emitted service_ok bulky_library) = emitted_mem bulky_library b"
    "locals (emitted service_ok bulky_library) = b + 65536"
    "prot (emitted service_ok bulky_library)
       = region b (128 * 1024) PAGE_EXECUTE_READWRITE (\<lambda>a. PAGE_NOACCESS)"
    by (simp_all add: r b_def)
  have "load_int (emitted service_ok bulky_library) (b + 65536)
          = Inr (mem_int (mem (emitted service_ok bulky_library)) (b + 65536))"
  proof (rule load_int_ok)
    fix j :: int assume "0 \<le> j" "j < 4"
    then show "can_read (prot (emitted service_ok bulky_library) (b + 65536 + j))"
      by (simp add: m region_apply)
  qed
  moreover have "mem_int (emitted_mem bulky_library b) (b + 65536) = 0x90909090"
  proof -
    have e: "emitted_mem bulky_library b (b + 65536 + j) = 0x90" if "0 \<le> j" "j < 4" for j
      using emitted_mem_bulky [of "65536 + j" b] that by (simp add: add.assoc)
    from e [of 0] e [of 1] e [of 2] e [of 3] show ?thesis by (simp add: mem_int_def)
  qed
  ultimately show ?thesis by (simp add: read_local_def m)
qed

text \<open>
  C10. One reservation of 128 KiB holds the code region at its base and the locals at
  byte offset 65536, all of it writable, and nothing checks the write pointer while the
  code is emitted: whenever the reservation succeeds and the snippets fit in the
  reservation, emission ends without a fault with the emitted bytes, \<open>ret\<close> included,
  standing from the code base on, and every other byte as it was. The bytes emitted and
  the locals region are disjoint exactly when the number of bytes emitted, \<open>ret\<close>
  included, is at most 65536. In that case the seven locals hold the values \<open>main\<close>
  gave them; otherwise the first byte of \<open>locals[0]\<close> is the emitted byte at offset
  65536. The thirteen calls of \<open>main\<close> stay within the bound whenever no snippet is
  longer than 5041 bytes.
\<close>

theorem regions_disjoint_iff_code_fits:
  assumes "alloc_result os \<noteq> 0" and "total_length lib stitch_calls < 131072"
  shows "fault (emitted os lib) = None
    \<and> locals (emitted os lib) = code_seg (emitted os lib) + 65536
    \<and> (\<forall>x. can_write (prot (emitted os lib) x)
             = (code_seg (emitted os lib) \<le> x \<and> x < code_seg (emitted os lib) + 131072))
    \<and> code_p (emitted os lib)
        = code_seg (emitted os lib) + int (total_length lib stitch_calls) + 1
    \<and> read_bytes (mem (emitted os lib)) (code_seg (emitted os lib))
          (total_length lib stitch_calls + 1)
        = emitted_bytes lib (locals (emitted os lib))
    \<and> (\<forall>x. x < code_seg (emitted os lib) \<or> code_p (emitted os lib) \<le> x
          \<longrightarrow> mem (emitted os lib) x = init_mem (alloc_result os) x)
    \<and> (({code_seg (emitted os lib) ..< code_p (emitted os lib)}
           \<inter> {locals (emitted os lib) ..< locals (emitted os lib) + 65536} = {})
         = (total_length lib stitch_calls + 1 \<le> 65536))
    \<and> (total_length lib stitch_calls + 1 \<le> 65536 \<longrightarrow>
          map (read_local (emitted os lib)) [0, 1, 2, 3, 4, 5, 6]
            = map Inr [0x1111, 2, 3, 4, 0, 6, 7])
    \<and> (65536 < total_length lib stitch_calls + 1 \<longrightarrow>
          mem (emitted os lib) (locals (emitted os lib))
            = emitted_bytes lib (locals (emitted os lib)) ! 65536)
    \<and> ((\<forall>s. snippet_length lib s \<le> 5041) \<longrightarrow> total_length lib stitch_calls + 1 \<le> 65536)"
proof -
  define b where "b = alloc_result os"
  define T where "T = total_length lib stitch_calls"
  note r = emitted_run [OF assms]
  have f: "fault (emitted os lib) = None"
    and cs: "code_seg (emitted os lib) = b"
    and l: "locals (emitted os lib) = b + 65536"
    and cp: "code_p (emitted os lib) = b + int T + 1"
    and me: "mem (emitted os lib) = emitted_mem lib b"
    and pr: "prot (emitted os lib)
               = region b (128 * 1024) PAGE_EXECUTE_READWRITE (\<lambda>a. PAGE_NOACCESS)"
    by (simp_all add: r b_def T_def)
  have 1: "locals (emitted os lib) = code_seg (emitted os lib) + 65536" by (simp add: l cs)
  have 2: "\<forall>x. can_write (prot (emitted os lib) x)
             = (code_seg (emitted os lib) \<le> x \<and> x < code_seg (emitted os lib) + 131072)"
    by (simp add: pr cs region_apply)
  have 3: "code_p (emitted os lib)
        = code_seg (emitted os lib) + int (total_length lib stitch_calls) + 1"
    by (simp add: cp cs T_def)
  have 4: "read_bytes (mem (emitted os lib)) (code_seg (emitted os lib))
          (total_length lib stitch_calls + 1) = emitted_bytes lib (locals (emitted os lib))"
    using read_bytes_emitted_mem [of lib b] by (simp only: me cs l) simp
  have 5: "\<forall>x. x < code_seg (emitted os lib) \<or> code_p (emitted os lib) \<le> x
          \<longrightarrow> mem (emitted os lib) x = init_mem (alloc_result os) x"
    unfolding me cs cp T_def b_def [symmetric] by (intro allI impI) (rule emitted_mem_outside)
  have 6: "({code_seg (emitted os lib) ..< code_p (emitted os lib)}
           \<inter> {locals (emitted os lib) ..< locals (emitted os lib) + 65536} = {})
         = (total_length lib stitch_calls + 1 \<le> 65536)"
  proof
    assume d: "{code_seg (emitted os lib) ..< code_p (emitted os lib)}
           \<inter> {locals (emitted os lib) ..< locals (emitted os lib) + 65536} = {}"
    show "total_length lib stitch_calls + 1 \<le> 65536"
    proof (rule ccontr)
      assume "\<not> total_length lib stitch_calls + 1 \<le> 65536"
      then have "b + 65536 \<in> {code_seg (emitted os lib) ..< code_p (emitted os lib)}
           \<inter> {locals (emitted os lib) ..< locals (emitted os lib) + 65536}"
        by (simp add: cs cp l T_def)
      with d show False by simp
    qed
  next
    assume "total_length lib stitch_calls + 1 \<le> 65536"
    then show "{code_seg (emitted os lib) ..< code_p (emitted os lib)}
           \<inter> {locals (emitted os lib) ..< locals (emitted os lib) + 65536} = {}"
      by (auto simp: cs cp l T_def)
  qed
  have 7: "map (read_local (emitted os lib)) [0, 1, 2, 3, 4, 5, 6]
            = map Inr [0x1111, 2, 3, 4, 0, 6, 7]"
    if fits: "total_length lib stitch_calls + 1 \<le> 65536"
    using read_local_emitted [OF assms(1) fits, of 0] read_local_emitted [OF assms(1) fits, of 1]
      read_local_emitted [OF assms(1) fits, of 2] read_local_emitted [OF assms(1) fits, of 3]
      read_local_emitted [OF assms(1) fits, of 4] read_local_emitted [OF assms(1) fits, of 5]
      read_local_emitted [OF assms(1) fits, of 6]
      mem_int_init_mem [of "alloc_result os"] mem_int_init_mem_a_e [of "alloc_result os"]
    by simp
  have 8: "mem (emitted os lib) (locals (emitted os lib))
            = emitted_bytes lib (locals (emitted os lib)) ! 65536"
    if big: "65536 < total_length lib stitch_calls + 1"
  proof -
    from read_bytes_nth [OF big, of "emitted_mem lib b" b]
    have "emitted_mem lib b (b + int 65536) = emitted_bytes lib (b + 64 * 1024) ! 65536"
      by (simp only: read_bytes_emitted_mem)
    then show ?thesis by (simp add: me l)
  qed
  have 9: "total_length lib stitch_calls + 1 \<le> 65536" if s: "\<forall>s. snippet_length lib s \<le> 5041"
  proof -
    have "sum_list (map (\<lambda>c. snippet_length lib (fst c)) cs) \<le> 5041 * length cs"
      for cs :: "(snippet \<times> arg) list"
      by (induction cs) (use s in \<open>auto simp: add_mono\<close>)
    from this [of stitch_calls] have "total_length lib stitch_calls \<le> 5041 * 13"
      by (simp add: total_length_sum) (simp add: stitch_calls_def)
    then show ?thesis by simp
  qed
  show ?thesis
    using f 1 2 3 4 5 6 7 8 9 by (intro conjI impI) blast+
qed

theorem regions_disjoint_iff_code_fits_witness:
  "alloc_result service_ok \<noteq> 0
   \<and> total_length tiny_library stitch_calls < 131072
   \<and> total_length bulky_library stitch_calls < 131072
   \<and> total_length tiny_library stitch_calls + 1 \<le> 65536
   \<and> 65536 < total_length bulky_library stitch_calls + 1
   \<and> fault (emitted service_ok tiny_library) = None
   \<and> map (read_local (emitted service_ok tiny_library)) [0, 1, 2, 3, 4, 5, 6]
        = map Inr [0x1111, 2, 3, 4, 0, 6, 7]
   \<and> fault (emitted service_ok bulky_library) = None
   \<and> mem (emitted service_ok bulky_library) (locals (emitted service_ok bulky_library)) = 0x90"
proof -
  have h1: "alloc_result service_ok \<noteq> 0" by (simp add: service_ok_def)
  have h2: "total_length tiny_library stitch_calls < 131072"
    and h3: "total_length bulky_library stitch_calls < 131072"
    and h4: "total_length tiny_library stitch_calls + 1 \<le> 65536"
    and h5: "65536 < total_length bulky_library stitch_calls + 1"
    by (simp_all add: total_length_tiny_library total_length_bulky_library)
  note t = regions_disjoint_iff_code_fits [OF h1 h2]
  note u = regions_disjoint_iff_code_fits [OF h1 h3]
  have a: "fault (emitted service_ok tiny_library) = None" using t by (rule conjunct1)
  have b: "map (read_local (emitted service_ok tiny_library)) [0, 1, 2, 3, 4, 5, 6]
        = map Inr [0x1111, 2, 3, 4, 0, 6, 7]"
    using t h4 by blast
  have c: "fault (emitted service_ok bulky_library) = None" using u by (rule conjunct1)
  have "mem (emitted service_ok bulky_library) (locals (emitted service_ok bulky_library))
          = emitted_bytes bulky_library (locals (emitted service_ok bulky_library)) ! 65536"
    using u h5 by blast
  also have "\<dots> = 0x90" by (rule emitted_bytes_bulky) simp
  finally have d: "mem (emitted service_ok bulky_library)
                     (locals (emitted service_ok bulky_library)) = 0x90" .
  show ?thesis
    by (intro conjI) (rule h1, rule h2, rule h3, rule h4, rule h5, rule a, rule b, rule c, rule d)
qed

end
